theory Spec2Isabelle
  imports Main
begin

section \<open>JSON values and the decoder behind \<open>json.loads\<close>\<close>

text \<open>
  The agent decodes the assistant's text with Python's \<open>json.loads\<close>. The decoder is part
  of the Python library, not of the repository; it is modelled here as a recursive-descent
  scanner over the text, following the order of tests of CPython's \<open>scan_once\<close>,
  \<open>JSONObject\<close>, \<open>JSONArray\<close>, \<open>scanstring\<close> (strict mode) and its number matcher.

  Text is a HOL \<open>string\<close>. A JSON integer becomes a Python \<open>int\<close> (unbounded, \<open>JInt\<close>); a
  number with a fraction or an exponent, and the constants \<open>NaN\<close>, \<open>Infinity\<close>,
  \<open>-Infinity\<close>, become a Python \<open>float\<close>, kept as its lexeme (\<open>JFloat\<close>) because no
  floating-point arithmetic is done on decoded values. An object keeps its members in the
  order written; Python's \<open>dict\<close> lets the last member of a repeated key win, which is how
  \<open>py_getitem\<close> below reads it. A \<open>\u\<close> escape above U+00FF has no HOL character; it is
  decoded to U+001A. Whether a text decodes at all does not depend on that choice.
  The interpreter's own limits (recursion depth, the length of an integer literal) are
  not part of the model.

  \<open>JSONArray\<close> and \<open>JSONObject\<close> go on to the next element only if the one just decoded
  consumed some text (\<open>length r < length cs\<close>). CPython has no such test; here it makes
  the recursion well-founded, and \<open>scan_shorter\<close> below shows that it always holds, so
  that the loops satisfy the equations without it (\<open>JSONArray_unguarded\<close>,
  \<open>JSONObject_unguarded\<close>).
\<close>

datatype json =
    JNull
  | JBool bool
  | JInt int
  | JFloat string
  | JString string
  | JArray "json list"
  | JObject "(string \<times> json) list"

definition is_ws :: "char \<Rightarrow> bool" where
  "is_ws c = (c = CHR '' '' \<or> c = CHR 0x09 \<or> c = CHR 0x0A \<or> c = CHR 0x0D)"

definition skip_ws :: "string \<Rightarrow> string" where
  "skip_ws cs = dropWhile is_ws cs"

definition is_digit :: "char \<Rightarrow> bool" where
  "is_digit c = (c \<in> set ''0123456789'')"

definition digit_val :: "char \<Rightarrow> nat" where
  "digit_val c = of_char c - 48"

definition hex_val :: "char \<Rightarrow> nat option" where
  "hex_val c =
     (if is_digit c then Some (of_char c - 48)
      else if c \<in> set ''abcdef'' then Some (of_char c - 87)
      else if c \<in> set ''ABCDEF'' then Some (of_char c - 55)
      else None)"

definition unescape :: "char \<Rightarrow> char option" where
  "unescape e =
     (if e = CHR 0x22 then Some (CHR 0x22)
      else if e = CHR 0x5C then Some (CHR 0x5C)
      else if e = CHR ''/'' then Some (CHR ''/'')
      else if e = CHR ''b'' then Some (CHR 0x08)
      else if e = CHR ''f'' then Some (CHR 0x0C)
      else if e = CHR ''n'' then Some (CHR 0x0A)
      else if e = CHR ''r'' then Some (CHR 0x0D)
      else if e = CHR ''t'' then Some (CHR 0x09)
      else None)"

definition code_point_char :: "nat \<Rightarrow> char" where
  "code_point_char n = (if n < 256 then char_of n else CHR 0x1A)"

fun scanstring :: "string \<Rightarrow> string \<Rightarrow> (string \<times> string) option" where
  "scanstring [] acc = None"
| "scanstring (c # cs) acc =
     (if c = CHR 0x22 then Some (rev acc, cs)
      else if c = CHR 0x5C then
        (case cs of
           [] \<Rightarrow> None
         | e # cs' \<Rightarrow>
             if e = CHR ''u'' then
               (case cs' of
                  a # b # x # d # rest \<Rightarrow>
                    (case (hex_val a, hex_val b, hex_val x, hex_val d) of
                       (Some h1, Some h2, Some h3, Some h4) \<Rightarrow>
                         scanstring rest
                           (code_point_char (((h1 * 16 + h2) * 16 + h3) * 16 + h4) # acc)
                     | _ \<Rightarrow> None)
                | _ \<Rightarrow> None)
             else
               (case unescape e of
                  None \<Rightarrow> None
                | Some ch \<Rightarrow> scanstring cs' (ch # acc)))
      else if (of_char c :: nat) < 32 then None
      else scanstring cs (c # acc))"

definition strip_prefix :: "string \<Rightarrow> string \<Rightarrow> string option" where
  "strip_prefix p cs = (if take (length p) cs = p then Some (drop (length p) cs) else None)"

definition int_of_digits :: "string \<Rightarrow> int" where
  "int_of_digits ds = foldl (\<lambda>a c. 10 * a + int (digit_val c)) 0 ds"

definition scan_frac :: "string \<Rightarrow> string \<times> string" where
  "scan_frac cs =
     (case cs of
        p # d # r \<Rightarrow>
          if p = CHR ''.'' \<and> is_digit d
          then (p # takeWhile is_digit (d # r), dropWhile is_digit (d # r))
          else ([], cs)
      | _ \<Rightarrow> ([], cs))"

definition scan_exp :: "string \<Rightarrow> string \<times> string" where
  "scan_exp cs =
     (case cs of
        [] \<Rightarrow> ([], cs)
      | e # r \<Rightarrow>
          if e = CHR ''e'' \<or> e = CHR ''E'' then
            (let sgn = (case r of s # _ \<Rightarrow> if s = CHR ''+'' \<or> s = CHR ''-'' then [s] else [] | [] \<Rightarrow> []);
                 r' = drop (length sgn) r
             in if r' \<noteq> [] \<and> is_digit (hd r')
                then (e # sgn @ takeWhile is_digit r', dropWhile is_digit r')
                else ([], cs))
          else ([], cs))"

definition number_of :: "bool \<Rightarrow> string \<Rightarrow> string \<Rightarrow> json \<times> string" where
  "number_of neg ipart rest =
     (case scan_frac rest of
        (frac, r2) \<Rightarrow>
          (case scan_exp r2 of
             (ex, r3) \<Rightarrow>
               if frac = [] \<and> ex = []
               then (JInt (if neg then - int_of_digits ipart else int_of_digits ipart), r3)
               else (JFloat ((if neg then ''-'' else []) @ ipart @ frac @ ex), r3)))"

fun match_digits :: "bool \<Rightarrow> string \<Rightarrow> (json \<times> string) option" where
  "match_digits neg [] = None"
| "match_digits neg (d # r) =
     (if d = CHR ''0'' then Some (number_of neg [d] r)
      else if is_digit d
      then Some (number_of neg (d # takeWhile is_digit r) (dropWhile is_digit r))
      else None)"

fun match_number :: "string \<Rightarrow> (json \<times> string) option" where
  "match_number [] = None"
| "match_number (c # cs) =
     (if c = CHR ''-'' then match_digits True cs else match_digits False (c # cs))"

definition literals :: "(string \<times> json) list" where
  "literals =
     [(''null'', JNull), (''true'', JBool True), (''false'', JBool False),
      (''NaN'', JFloat ''NaN''), (''Infinity'', JFloat ''Infinity''),
      (''-Infinity'', JFloat ''-Infinity'')]"

fun scan_literal :: "(string \<times> json) list \<Rightarrow> string \<Rightarrow> (json \<times> string) option" where
  "scan_literal [] cs = match_number cs"
| "scan_literal ((p, v) # ls) cs =
     (case strip_prefix p cs of Some r \<Rightarrow> Some (v, r) | None \<Rightarrow> scan_literal ls cs)"

function (sequential)
  scan_once :: "string \<Rightarrow> (json \<times> string) option" and
  JSONArray :: "string \<Rightarrow> json list \<Rightarrow> (json \<times> string) option" and
  JSONObject :: "string \<Rightarrow> (string \<times> json) list \<Rightarrow> (json \<times> string) option"
where
  "scan_once [] = None"
| "scan_once (c # cs) =
     (if c = CHR 0x22 then
        (case scanstring cs [] of None \<Rightarrow> None | Some (s, r) \<Rightarrow> Some (JString s, r))
      else if c = CHR ''{'' then
        (case skip_ws cs of
           [] \<Rightarrow> None
         | d # r \<Rightarrow> if d = CHR ''}'' then Some (JObject [], r) else JSONObject (skip_ws cs) [])
      else if c = CHR ''['' then
        (case skip_ws cs of
           [] \<Rightarrow> None
         | d # r \<Rightarrow> if d = CHR '']'' then Some (JArray [], r) else JSONArray (skip_ws cs) [])
      else scan_literal literals (c # cs))"
| "JSONArray cs acc =
     (case scan_once cs of
        None \<Rightarrow> None
      | Some (v, r) \<Rightarrow>
          if length r < length cs then
            (case skip_ws r of
               [] \<Rightarrow> None
             | d # r' \<Rightarrow>
                 if d = CHR '']'' then Some (JArray (rev (v # acc)), r')
                 else if d = CHR '','' then JSONArray (skip_ws r') (v # acc)
                 else None)
          else None)"
| "JSONObject [] acc = None"
| "JSONObject (q # cs) acc =
     (if q \<noteq> CHR 0x22 then None
      else
        (case scanstring cs [] of
           None \<Rightarrow> None
         | Some (k, r1) \<Rightarrow>
             (case skip_ws r1 of
                [] \<Rightarrow> None
              | colon # r2 \<Rightarrow>
                  if colon \<noteq> CHR '':'' then None
                  else
                    (case scan_once (skip_ws r2) of
                       None \<Rightarrow> None
                     | Some (v, r3) \<Rightarrow>
                         if length r3 < length (q # cs) then
                           (case skip_ws r3 of
                              [] \<Rightarrow> None
                            | d # r4 \<Rightarrow>
                                if d = CHR ''}'' then Some (JObject (rev ((k, v) # acc)), r4)
                                else if d = CHR '','' then JSONObject (skip_ws r4) ((k, v) # acc)
                                else None)
                         else None))))"
  by pat_completeness auto

termination
proof -
  have ws: "length (skip_ws cs) \<le> length cs" for cs
    by (simp add: skip_ws_def length_dropWhile_le)
  have ss: "scanstring cs acc = Some (s, r) \<Longrightarrow> length r < length cs" for cs acc s r
    apply (induction cs acc arbitrary: s r rule: scanstring.induct)
     apply simp
    apply (simp only: scanstring.simps split: if_splits list.splits option.splits prod.splits)
                 apply force+
    done
  show ?thesis
  proof (relation "measure (\<lambda>x. case x of
            Inl cs \<Rightarrow> 2 * length cs
          | Inr (Inl (cs, acc)) \<Rightarrow> 2 * length cs + 1
          | Inr (Inr (cs, acc)) \<Rightarrow> 2 * length cs + 1)", goal_cases)
    case 1
    then show ?case by simp
  next
    case (2 c cs d r)
    then show ?case using ws [of cs] by simp
  next
    case (3 c cs d r)
    then show ?case using ws [of cs] by simp
  next
    case (4 cs acc)
    then show ?case by simp
  next
    case (5 cs acc x v r d r')
    then show ?case using ws [of r] ws [of r'] by simp
  next
    case (6 q cs acc x k r1 colon r2)
    then show ?case using ws [of r1] ws [of r2] ss [of cs "[]" k r1] by simp
  next
    case (7 q cs acc x k r1 colon r2 y v r3 d r4)
    then show ?case using ws [of r3] ws [of r4] by simp
  qed
qed

text \<open>
  \<open>json.loads\<close>: leading whitespace, one value, trailing whitespace, and nothing else
  (``Extra data'' otherwise). \<open>None\<close> stands for \<open>json.JSONDecodeError\<close>.
\<close>

definition json_loads :: "string \<Rightarrow> json option" where
  "json_loads s =
     (case scan_once (skip_ws s) of
        None \<Rightarrow> None
      | Some (v, r) \<Rightarrow> if skip_ws r = [] then Some v else None)"

section \<open>Python values, messages, tools and the agent\<close>

text \<open>
  \<open>error\<close> lists the exceptions that can leave \<open>Agent.run\<close> or \<open>Agent._parse_action\<close>:
  \<open>JSONDecodeError\<close> from the decoder, \<open>TypeError\<close>, \<open>KeyError\<close> and \<open>AttributeError\<close>
  from Python's operators and methods on a decoded value, \<open>RuntimeError\<close> for the
  exhausted budget, \<open>HTTPError\<close> for whatever the provider's \<open>generate\<close> raises, and
  \<open>BaseException\<close> for an exception outside the class \<open>Exception\<close>
  (\<open>KeyboardInterrupt\<close>, \<open>SystemExit\<close>, ...), given by the name of its class.

  A message is the dict \<open>{"role": ..., "content": ...}\<close>. A tool has the three members of
  the abstract class \<open>Tool\<close>; \<open>execute\<close> stands for the whole call
  \<open>tool.execute(**tool_args)\<close> on the decoded arguments value, including Python's binding
  of keywords, and yields \<open>Returned s\<close> with \<open>s = str(result)\<close>, or \<open>Raised s\<close> with
  \<open>s = str(e)\<close> for the \<open>Exception\<close> \<open>e\<close> it raised, or \<open>Escaped c\<close> for an exception of
  class \<open>c\<close> outside \<open>Exception\<close>, which \<open>except Exception\<close> does not catch. The
  provider's \<open>generate\<close> is a
  function of the conversation: within one run every call receives a strictly longer
  conversation, so this describes any backend, scripted or stateful.
\<close>

datatype error =
    JSONDecodeError
  | TypeError
  | KeyError
  | AttributeError
  | RuntimeError string
  | HTTPError string
  | BaseException string

record message =
  role :: string
  content :: string

datatype outcome = Raised string | Returned string | Escaped string

record tool =
  name :: string
  description :: string
  execute :: "json \<Rightarrow> outcome"

type_synonym provider = "message list \<Rightarrow> error + string"

record agent =
  llm_provider :: provider
  tools :: "(string \<times> tool) list"
  max_iterations :: int

text \<open>
  \<open>Agent.__init__\<close> builds the registry with the dict comprehension
  \<open>{tool.name: tool for tool in tools}\<close>. A Python dict keeps its keys in the order of
  first insertion and a later value replaces an earlier one under the same key; the
  registry is an association list with that update.
\<close>

fun dict_set :: "('k \<times> 'v) list \<Rightarrow> 'k \<Rightarrow> 'v \<Rightarrow> ('k \<times> 'v) list" where
  "dict_set [] k v = [(k, v)]"
| "dict_set ((k', v') # d) k v =
     (if k' = k then (k', v) # d else (k', v') # dict_set d k v)"

definition Agent :: "provider \<Rightarrow> tool list \<Rightarrow> int \<Rightarrow> agent" where
  "Agent p ts n =
     \<lparr>llm_provider = p,
      tools = foldl (\<lambda>d t. dict_set d (name t) t) [] ts,
      max_iterations = n\<rparr>"

text \<open>
  \<open>_format_tools_description\<close> and \<open>_create_system_prompt\<close>: one entry per value of the
  registry, joined with newlines, inside the fixed template.
\<close>

definition nl :: string where
  "nl = [CHR 0x0A]"

fun join :: "string \<Rightarrow> string list \<Rightarrow> string" where
  "join sep [] = []"
| "join sep [x] = x"
| "join sep (x # y # ys) = x @ sep @ join sep (y # ys)"

definition format_tools_description :: "agent \<Rightarrow> string" where
  "format_tools_description a =
     join nl (map (\<lambda>(k, t). ''- '' @ name t @ '': '' @ description t) (tools a))"

definition create_system_prompt :: "agent \<Rightarrow> string" where
  \<open>create_system_prompt a =
     ''You are a helpful AI assistant that can use tools to accomplish tasks.'' @ nl @
     nl @
     ''Available tools:'' @ nl @
     format_tools_description a @ nl @
     nl @
     ''To use a tool, respond with a JSON object in this format:'' @ nl @
     ''{"tool": "tool_name", "arguments": {"arg1": "value1", "arg2": "value2"}}'' @ nl @
     nl @
     ''When you have completed the task, respond with:'' @ nl @
     ''{"final_answer": "your answer here"}'' @ nl @
     nl @
     ''Always think step by step and use tools to verify your work when possible.'' @ nl\<close>

text \<open>
  \<open>_parse_action\<close>. \<open>re.search(r"\{.*\}", response, re.DOTALL)\<close> finds the leftmost
  match and the longest one from there: it starts at the first \<open>{\<close> and ends at the
  last \<open>}\<close> of the text, and there is a match exactly when a \<open>}\<close> follows the first \<open>{\<close>.
  The match, if any, is decoded; the entire response is decoded only when there is none.
\<close>

definition re_search_braces :: "string \<Rightarrow> string option" where
  "re_search_braces response =
     (let from_open = dropWhile (\<lambda>c. c \<noteq> CHR ''{'') response
      in if CHR ''}'' \<in> set from_open
         then Some (rev (dropWhile (\<lambda>c. c \<noteq> CHR ''}'') (rev from_open)))
         else None)"

definition loads :: "string \<Rightarrow> error + json" where
  "loads s = (case json_loads s of None \<Rightarrow> Inl JSONDecodeError | Some v \<Rightarrow> Inr v)"

definition parse_action :: "string \<Rightarrow> error + json" where
  "parse_action response =
     (case re_search_braces response of
        Some json_match \<Rightarrow> loads json_match
      | None \<Rightarrow> loads response)"

section \<open>The run loop\<close>

text \<open>
  Python's \<open>in\<close>, subscript and \<open>dict.get\<close> on a decoded value: \<open>in\<close> looks for a key in a
  dict, an equal element in a list and a substring in a str, and raises \<open>TypeError\<close> on
  \<open>None\<close>, booleans and numbers; a subscript with a str key works on a dict only.
  \<open>str_hashable\<close> is \<open>str(v)\<close> as the f-string of the unknown-tool message renders it,
  for the values that can be looked up in a dict; a list or a dict is unhashable and the
  lookup \<open>tool_name not in self.tools\<close> raises \<open>TypeError\<close> before anything is rendered.
  How Python prints a float is left to the parameter \<open>float_str\<close>, from the lexeme.
\<close>

fun is_substring :: "string \<Rightarrow> string \<Rightarrow> bool" where
  "is_substring p [] = (p = [])"
| "is_substring p (c # cs) = (take (length p) (c # cs) = p \<or> is_substring p cs)"

definition py_contains :: "string \<Rightarrow> json \<Rightarrow> error + bool" where
  "py_contains k v =
     (case v of
        JObject kv \<Rightarrow> Inr (k \<in> set (map fst kv))
      | JArray xs \<Rightarrow> Inr (JString k \<in> set xs)
      | JString s \<Rightarrow> Inr (is_substring k s)
      | _ \<Rightarrow> Inl TypeError)"

definition py_getitem :: "json \<Rightarrow> string \<Rightarrow> error + json" where
  "py_getitem v k =
     (case v of
        JObject kv \<Rightarrow> (case map_of (rev kv) k of Some x \<Rightarrow> Inr x | None \<Rightarrow> Inl KeyError)
      | _ \<Rightarrow> Inl TypeError)"

definition py_get :: "json \<Rightarrow> string \<Rightarrow> json \<Rightarrow> error + json" where
  "py_get v k dflt =
     (case v of
        JObject kv \<Rightarrow> (case map_of (rev kv) k of Some x \<Rightarrow> Inr x | None \<Rightarrow> Inr dflt)
      | _ \<Rightarrow> Inl AttributeError)"

function str_nat :: "nat \<Rightarrow> string" where
  "str_nat n =
     (if n < 10 then [char_of (48 + n)]
      else str_nat (n div 10) @ [char_of (48 + n mod 10)])"
  by pat_completeness auto
termination
  by (relation "measure id") auto

definition str_int :: "int \<Rightarrow> string" where
  "str_int i = (if i < 0 then ''-'' @ str_nat (nat (- i)) else str_nat (nat i))"

definition str_hashable :: "(string \<Rightarrow> string) \<Rightarrow> json \<Rightarrow> string option" where
  "str_hashable float_str v =
     (case v of
        JNull \<Rightarrow> Some ''None''
      | JBool b \<Rightarrow> Some (if b then ''True'' else ''False'')
      | JInt i \<Rightarrow> Some (str_int i)
      | JFloat lexeme \<Rightarrow> Some (float_str lexeme)
      | JString s \<Rightarrow> Some s
      | JArray _ \<Rightarrow> None
      | JObject _ \<Rightarrow> None)"

text \<open>
  The state of a run is the conversation, to which the loop only appends. \<open>events\<close> is
  a trace added for the statements about calls: one \<open>Generate\<close> with the conversation
  passed for every call of the provider, one \<open>Execute\<close> with the tool's name and arguments
  for every call of a tool. \<open>iteration\<close> is the body of the \<open>for\<close> loop and \<open>flow\<close> how it
  ends: \<open>continue\<close> or falling through, \<open>return\<close>, or an exception leaving \<open>run\<close>.
  \<open>verbose\<close> only prints and is left out.
\<close>

datatype event = Generate "message list" | Execute string json

record run_state =
  messages :: "message list"
  events :: "event list"

datatype flow = Continue | Return json | Raise error

definition user :: "string \<Rightarrow> message" where
  "user c = \<lparr>role = ''user'', content = c\<rparr>"

definition assistant :: "string \<Rightarrow> message" where
  "assistant c = \<lparr>role = ''assistant'', content = c\<rparr>"

definition system :: "string \<Rightarrow> message" where
  "system c = \<lparr>role = ''system'', content = c\<rparr>"

definition append_message :: "message \<Rightarrow> run_state \<Rightarrow> run_state" where
  "append_message m st = st\<lparr>messages := messages st @ [m]\<rparr>"

definition log_event :: "event \<Rightarrow> run_state \<Rightarrow> run_state" where
  "log_event e st = st\<lparr>events := events st @ [e]\<rparr>"

definition dispatch_tool ::
  "(string \<Rightarrow> string) \<Rightarrow> agent \<Rightarrow> json \<Rightarrow> run_state \<Rightarrow> flow \<times> run_state" where
  "dispatch_tool float_str a action st =
     (case py_getitem action ''tool'' of
        Inl e \<Rightarrow> (Raise e, st)
      | Inr tool_name \<Rightarrow>
          (case py_get action ''arguments'' (JObject []) of
             Inl e \<Rightarrow> (Raise e, st)
           | Inr tool_args \<Rightarrow>
               (case str_hashable float_str tool_name of
                  None \<Rightarrow> (Raise TypeError, st)
                | Some shown \<Rightarrow>
                    (case (case tool_name of JString n \<Rightarrow> map_of (tools a) n | _ \<Rightarrow> None) of
                       None \<Rightarrow>
                         (Continue, append_message (user (''Unknown tool: '' @ shown)) st)
                     | Some t \<Rightarrow>
                         (case execute t tool_args of
                            Returned result \<Rightarrow>
                              (Continue,
                               append_message (user (''Tool result: '' @ result))
                                 (log_event (Execute shown tool_args) st))
                          | Raised e \<Rightarrow>
                              (Continue,
                               append_message (user (''Tool error: '' @ e))
                                 (log_event (Execute shown tool_args) st))
                          | Escaped c \<Rightarrow>
                              (Raise (BaseException c),
                               log_event (Execute shown tool_args) st))))))"

definition dispatch ::
  "(string \<Rightarrow> string) \<Rightarrow> agent \<Rightarrow> json \<Rightarrow> run_state \<Rightarrow> flow \<times> run_state" where
  "dispatch float_str a action st =
     (case py_contains ''final_answer'' action of
        Inl e \<Rightarrow> (Raise e, st)
      | Inr True \<Rightarrow>
          (case py_getitem action ''final_answer'' of
             Inl e \<Rightarrow> (Raise e, st)
           | Inr answer \<Rightarrow> (Return answer, st))
      | Inr False \<Rightarrow>
          (case py_contains ''tool'' action of
             Inl e \<Rightarrow> (Raise e, st)
           | Inr True \<Rightarrow> dispatch_tool float_str a action st
           | Inr False \<Rightarrow>
               (Continue,
                append_message
                  (user ''Please specify a tool to use or provide a final_answer.'') st)))"

definition iteration ::
  "(string \<Rightarrow> string) \<Rightarrow> agent \<Rightarrow> run_state \<Rightarrow> flow \<times> run_state" where
  "iteration float_str a st =
     (case llm_provider a (messages st) of
        Inl e \<Rightarrow> (Raise e, log_event (Generate (messages st)) st)
      | Inr response \<Rightarrow>
          (let st1 = append_message (assistant response) (log_event (Generate (messages st)) st)
           in case parse_action response of
                Inl e \<Rightarrow>
                  (if e = JSONDecodeError
                   then (Continue,
                         append_message (user ''Please respond with a valid JSON object.'') st1)
                   else (Raise e, st1))
              | Inr action \<Rightarrow> dispatch float_str a action st1))"

fun run_loop ::
  "(string \<Rightarrow> string) \<Rightarrow> agent \<Rightarrow> nat \<Rightarrow> run_state \<Rightarrow> (error + json) \<times> run_state" where
  "run_loop float_str a 0 st =
     (Inl (RuntimeError (''Max iterations ('' @ str_int (max_iterations a) @ '') exceeded'')), st)"
| "run_loop float_str a (Suc n) st =
     (case iteration float_str a st of
        (Continue, st') \<Rightarrow> run_loop float_str a n st'
      | (Return answer, st') \<Rightarrow> (Inr answer, st')
      | (Raise e, st') \<Rightarrow> (Inl e, st'))"

definition run :: "(string \<Rightarrow> string) \<Rightarrow> agent \<Rightarrow> string \<Rightarrow> (error + json) \<times> run_state" where
  "run float_str a task =
     run_loop float_str a (nat (max_iterations a))
       \<lparr>messages = [system (create_system_prompt a), user task], events = []\<rparr>"

section \<open>The calculator tools\<close>

text \<open>
  \<open>CalculatorTool.execute\<close> hands the expression to Python's \<open>eval\<close> in a restricted
  namespace. \<open>eval\<close> is the interpreter itself and is a parameter here, with the three
  ways a Python call can end (\<open>py\<close>): \<open>Returns v\<close> when it returns the object \<open>v\<close>,
  \<open>RaisesException s\<close> when it raises an instance of \<open>Exception\<close> whose \<open>str\<close> is \<open>s\<close>,
  and \<open>RaisesBase c\<close> when it raises an exception of class \<open>c\<close> that is a
  \<open>BaseException\<close> but no \<open>Exception\<close> (\<open>KeyboardInterrupt\<close>, \<open>SystemExit\<close>,
  \<open>GeneratorExit\<close>). The handler of the method is \<open>except Exception\<close>: it turns the
  second into the \<open>ValueError\<close> \<open>Invalid expression: ...\<close> and lets the third pass.

  \<open>VerifyCalculationTool.execute\<close> applies \<open>isinstance(_, float)\<close>, \<open>-\<close>, \<open>abs\<close>,
  \<open>< 1e-9\<close> and \<open>==\<close> to Python objects. Their results depend on floating-point
  arithmetic and on the objects' classes, so they are parameters as well (\<open>arith\<close>), each
  able to end in any of the three ways. Its handler is \<open>except Exception\<close> too.
\<close>

datatype 'a py = Returns 'a | RaisesException string | RaisesBase string

definition CalculatorTool_execute :: "(json \<Rightarrow> 'v py) \<Rightarrow> json \<Rightarrow> 'v py" where
  "CalculatorTool_execute py_eval expression =
     (case py_eval expression of
        Returns result \<Rightarrow> Returns result
      | RaisesException e \<Rightarrow> RaisesException (''Invalid expression: '' @ e)
      | RaisesBase c \<Rightarrow> RaisesBase c)"




definition bind_expression :: "json \<Rightarrow> json option" where
  "bind_expression tool_args =
     (case tool_args of
        JObject kv \<Rightarrow>
          if set (map fst kv) = {''expression''} then map_of (rev kv) ''expression'' else None
      | _ \<Rightarrow> None)"

definition calculator_tool ::
  "(json \<Rightarrow> 'v py) \<Rightarrow> ('v \<Rightarrow> string) \<Rightarrow> (json \<Rightarrow> string) \<Rightarrow> tool" where
  "calculator_tool py_eval py_str call_error =
     \<lparr>name = ''calculator'',
      description =
        ''Evaluates a mathematical expression and returns the result. '' @
        ''Supports basic operations (+, -, *, /, **), parentheses, and numbers. '' @
        ''Example: calculator(expression='2 + 2 * 3')'',
      execute = (\<lambda>tool_args.
        case bind_expression tool_args of
          None \<Rightarrow> Raised (call_error tool_args)
        | Some expression \<Rightarrow>
            (case CalculatorTool_execute py_eval expression of
               Returns result \<Rightarrow> Returned (py_str result)
             | RaisesException e \<Rightarrow> Raised e
             | RaisesBase c \<Rightarrow> Escaped c))\<rparr>"

section \<open>Scripted backends and the parser as the specification words it\<close>

text \<open>
  A test double for the provider, as a mock backend in a unit test: the reply to the
  \<open>k\<close>-th call (counting from 0) is the \<open>k\<close>-th entry of the script, and \<open>final\<close> once
  the script is used up. The call number is read off the conversation, which holds the
  system message, the task and two messages for every completed iteration.
\<close>

definition scripted :: "string list \<Rightarrow> string \<Rightarrow> provider" where
  "scripted replies final conversation =
     (if (length conversation - 2) div 2 < length replies
      then Inr (replies ! ((length conversation - 2) div 2))
      else Inr final)"

text \<open>
  Stand-ins for the interpreter, used where a theorem is instantiated. \<open>eval_table\<close> is
  an \<open>eval\<close> that knows the outcome of the expressions in a table; \<open>known_outcomes\<close>
  holds three outcomes of CPython in the calculator's namespace: \<open>2 + 2 * 3\<close> is 8,
  \<open>2 +\<close> is a \<open>SyntaxError\<close>, and throwing \<open>KeyboardInterrupt\<close> into a generator, the
  class reached through the builtin \<open>abs\<close> that the namespace holds, raises it.
  \<open>call_mismatch\<close> stands for the text of the \<open>TypeError\<close> of a call whose keywords do
  not fit \<open>execute(expression)\<close>, and \<open>int_arith\<close> is Python's operators restricted to
  \<open>int\<close> objects (an \<open>int\<close> is below \<open>1e-9\<close> exactly when it is not positive).
\<close>

definition eval_table :: "(string \<times> int py) list \<Rightarrow> json \<Rightarrow> int py" where
  "eval_table table expression =
     (case expression of
        JString e \<Rightarrow>
          (case map_of table e of
             Some result \<Rightarrow> result
           | None \<Rightarrow> RaisesException ''expression not in the table'')
      | _ \<Rightarrow> RaisesException ''eval() arg 1 must be a string, bytes or code object'')"

definition known_outcomes :: "(string \<times> int py) list" where
  "known_outcomes =
     [(''2 + 2 * 3'', Returns 8),
      (''2 +'', RaisesException ''invalid syntax (<string>, line 1)''),
      (''(_ for _ in ()).throw(abs.__self__.KeyboardInterrupt)'',
       RaisesBase ''KeyboardInterrupt'')]"

definition call_mismatch :: "json \<Rightarrow> string" where
  "call_mismatch tool_args = ''execute() needs exactly the keyword expression''"

definition table_calculator :: tool where
  "table_calculator = calculator_tool (eval_table known_outcomes) str_int call_mismatch"


text \<open>
  Text that can stand between the quotes of a JSON string as it is: no quote, no
  backslash and no control character.
\<close>

definition plain :: "string \<Rightarrow> bool" where
  "plain x = list_all (\<lambda>c. c \<noteq> CHR 0x22 \<and> c \<noteq> CHR 0x5C \<and> 32 \<le> (of_char c :: nat)) x"

text \<open>
  The message the loop appends after a reply that does not decode, and the part of a
  conversation that a sequence of such replies leaves behind: each reply as an assistant
  message, followed by that corrective message.
\<close>

definition corrective :: message where
  "corrective = user ''Please respond with a valid JSON object.''"

definition retries :: "string list \<Rightarrow> message list" where
  "retries replies = concat (map (\<lambda>reply. [assistant reply, corrective]) replies)"

text \<open>
  The value \<open>action.get("arguments", {})\<close> of a decoded object.
\<close>

definition arguments_of :: "(string \<times> json) list \<Rightarrow> json" where
  "arguments_of kv = (case map_of (rev kv) ''arguments'' of None \<Rightarrow> JObject [] | Some x \<Rightarrow> x)"

text \<open>
  The action parser as the specification describes it, for comparison with
  \<open>parse_action\<close>: decode the greedy brace substring as the action schema; if no such
  substring parses, decode the entire text as the action schema; fail when neither
  succeeds. The schema is a parameter: \<open>any_json\<close> accepts whatever decodes,
  \<open>action_schema\<close> is the decoded schema of the specification (an object with a string
  \<open>final_answer\<close>, or with a string \<open>tool\<close> and, if present, a mapping \<open>arguments\<close>).
\<close>

definition any_json :: "json \<Rightarrow> bool" where
  "any_json v = True"

definition action_schema :: "json \<Rightarrow> bool" where
  "action_schema v =
     (case v of
        JObject kv \<Rightarrow>
          (case map_of (rev kv) ''final_answer'' of
             Some (JString s) \<Rightarrow> True
           | _ \<Rightarrow>
               (case map_of (rev kv) ''tool'' of
                  Some (JString n) \<Rightarrow>
                    (case map_of (rev kv) ''arguments'' of
                       None \<Rightarrow> True
                     | Some (JObject args) \<Rightarrow> True
                     | Some _ \<Rightarrow> False)
                | _ \<Rightarrow> False))
      | _ \<Rightarrow> False)"

definition decode_as :: "(json \<Rightarrow> bool) \<Rightarrow> string \<Rightarrow> json option" where
  "decode_as schema s =
     (case json_loads s of
        None \<Rightarrow> None
      | Some v \<Rightarrow> if schema v then Some v else None)"

definition parse_action_spec :: "(json \<Rightarrow> bool) \<Rightarrow> string \<Rightarrow> error + json" where
  "parse_action_spec schema response =
     (case (case re_search_braces response of
              None \<Rightarrow> None
            | Some json_match \<Rightarrow> decode_as schema json_match) of
        Some action \<Rightarrow> Inr action
      | None \<Rightarrow>
          (case decode_as schema response of
             Some action \<Rightarrow> Inr action
           | None \<Rightarrow> Inl JSONDecodeError))"

section \<open>The decoder consumes its input\<close>

text \<open>
  \<open>JSONArray\<close> and \<open>JSONObject\<close> test that the element just decoded used up some text
  before they go on. The test is what makes the recursion well-founded; it never fails,
  because every value the scanner decodes is at least one character long.
\<close>

lemma skip_ws_length: "length (skip_ws cs) \<le> length cs"
  by (simp add: skip_ws_def length_dropWhile_le)

lemma scanstring_shorter:
  "scanstring cs acc = Some (s, r) \<Longrightarrow> length r < length cs"
  apply (induction cs acc arbitrary: s r rule: scanstring.induct)
   apply simp
  apply (simp only: scanstring.simps split: if_splits list.splits option.splits prod.splits)
               apply force+
  done

lemma strip_prefix_length:
  "strip_prefix p cs = Some r \<Longrightarrow> p \<noteq> [] \<Longrightarrow> length r < length cs"
  by (cases cs) (auto simp: strip_prefix_def split: if_splits)

lemma scan_frac_length: "scan_frac cs = (f, r) \<Longrightarrow> length r \<le> length cs"
  by (auto simp: scan_frac_def split: list.splits if_splits
           intro: le_trans [OF length_dropWhile_le])

lemma scan_exp_length: "scan_exp cs = (e, r) \<Longrightarrow> length r \<le> length cs"
  by (auto simp: scan_exp_def Let_def split: list.splits if_splits
           intro: le_trans [OF length_dropWhile_le])

lemma number_of_length: "number_of neg ip cs = (v, r) \<Longrightarrow> length r \<le> length cs"
  by (auto simp: number_of_def split: prod.splits if_splits
           dest!: scan_frac_length scan_exp_length)

lemma match_digits_shorter: "match_digits neg cs = Some (v, r) \<Longrightarrow> length r < length cs"
  by (cases cs)
     (auto split: if_splits dest!: number_of_length
           intro: le_less_trans le_trans [OF _ length_dropWhile_le])

lemma match_number_shorter: "match_number cs = Some (v, r) \<Longrightarrow> length r < length cs"
proof (cases cs)
  case Nil
  assume "match_number cs = Some (v, r)"
  with Nil show ?thesis by simp
next
  case (Cons c cs')
  assume m: "match_number cs = Some (v, r)"
  show ?thesis
  proof (cases "c = CHR ''-''")
    case True
    with m Cons have "match_digits True cs' = Some (v, r)" by simp
    from match_digits_shorter [OF this] Cons show ?thesis by simp
  next
    case False
    with m Cons have "match_digits False cs = Some (v, r)" by simp
    from match_digits_shorter [OF this] show ?thesis .
  qed
qed

lemma scan_literal_shorter:
  "scan_literal ls cs = Some (v, r) \<Longrightarrow> \<forall>(p, x) \<in> set ls. p \<noteq> [] \<Longrightarrow> length r < length cs"
  by (induction ls cs rule: scan_literal.induct)
     (auto split: option.splits dest: match_number_shorter strip_prefix_length)

lemma literals_nonempty: "\<forall>(p, x) \<in> set literals. p \<noteq> []"
  by (simp add: literals_def)

lemma scan_shorter:
  shows "scan_once cs = Some (v, r) \<Longrightarrow> length r < length cs"
    and "JSONArray cs acc = Some (v, r) \<Longrightarrow> length r < length cs"
    and "JSONObject cs kacc = Some (v, r) \<Longrightarrow> length r < length cs"
proof (induction cs and cs acc and cs kacc arbitrary: v r and v r and v r
       rule: scan_once_JSONArray_JSONObject.induct)
  case 1
  then show ?case by simp
next
  case (2 c cs)
  note ws = skip_ws_length [of cs]
  show ?case
  proof (cases "c = CHR 0x22")
    case True
    with "2.prems" show ?thesis
      by (auto split: option.splits dest!: scanstring_shorter)
  next
    case nq: False
    show ?thesis
    proof (cases "c = CHR ''{''")
      case True
      with "2.prems" nq obtain d r' where sk: "skip_ws cs = d # r'"
        by (auto split: list.splits)
      show ?thesis
      proof (cases "d = CHR ''}''")
        case True
        with "2.prems" nq \<open>c = CHR ''{''\<close> sk ws show ?thesis by auto
      next
        case False
        with "2.prems" nq \<open>c = CHR ''{''\<close> sk
        have "JSONObject (skip_ws cs) [] = Some (v, r)" by simp
        from "2.IH"(1) [OF nq \<open>c = CHR ''{''\<close> sk False this] ws show ?thesis by simp
      qed
    next
      case nb: False
      show ?thesis
      proof (cases "c = CHR ''[''")
        case True
        with "2.prems" nq nb obtain d r' where sk: "skip_ws cs = d # r'"
          by (auto split: list.splits)
        show ?thesis
        proof (cases "d = CHR '']''")
          case True
          with "2.prems" nq nb \<open>c = CHR ''[''\<close> sk ws show ?thesis by auto
        next
          case False
          with "2.prems" nq nb \<open>c = CHR ''[''\<close> sk
          have "JSONArray (skip_ws cs) [] = Some (v, r)" by simp
          from "2.IH"(2) [OF nq nb \<open>c = CHR ''[''\<close> sk False this] ws show ?thesis by simp
        qed
      next
        case False
        with "2.prems" nq nb have "scan_literal literals (c # cs) = Some (v, r)" by simp
        from scan_literal_shorter [OF this literals_nonempty] show ?thesis .
      qed
    qed
  qed
next
  case (3 cs acc)
  from "3.prems" obtain x r1 where so: "scan_once cs = Some (x, r1)"
    by (auto split: option.splits)
  with "3.prems" have lt: "length r1 < length cs"
    by (auto split: if_splits)
  from "3.prems" so lt obtain d r' where sk: "skip_ws r1 = d # r'"
    by (auto split: list.splits)
  have le: "length r' < length r1" using skip_ws_length [of r1] sk by simp
  show ?case
  proof (cases "d = CHR '']''")
    case True
    with "3.prems" so lt sk le show ?thesis by auto
  next
    case False
    with "3.prems" so lt sk have c: "d = CHR '',''" and
      rec: "JSONArray (skip_ws r') (x # acc) = Some (v, r)"
      by (auto split: if_splits)
    from "3.IH"(2) [OF so refl lt sk False c rec] skip_ws_length [of r'] le lt
    show ?thesis by simp
  qed
next
  case (4 acc)
  then show ?case by simp
next
  case (5 q cs acc)
  from "5.prems" have q: "\<not> q \<noteq> CHR 0x22" by (auto split: if_splits)
  from "5.prems" q obtain k r1 where ss: "scanstring cs [] = Some (k, r1)"
    by (auto split: option.splits)
  from "5.prems" q ss obtain colon r2 where sk1: "skip_ws r1 = colon # r2"
    by (auto split: list.splits)
  from "5.prems" q ss sk1 have col: "\<not> colon \<noteq> CHR '':''" by (auto split: if_splits)
  from "5.prems" q ss sk1 col obtain x r3 where so: "scan_once (skip_ws r2) = Some (x, r3)"
    by (auto split: option.splits)
  from "5.prems" q ss sk1 col so have lt: "length r3 < length (q # cs)"
    by (auto split: if_splits)
  from "5.prems" q ss sk1 col so lt obtain d r4 where sk: "skip_ws r3 = d # r4"
    by (auto split: list.splits)
  have le: "length r4 < length r3" using skip_ws_length [of r3] sk by simp
  show ?case
  proof (cases "d = CHR ''}''")
    case True
    with "5.prems" q ss sk1 col so lt sk le show ?thesis by auto
  next
    case False
    with "5.prems" q ss sk1 col so lt sk have c: "d = CHR '',''" and
      rec: "JSONObject (skip_ws r4) ((k, x) # acc) = Some (v, r)"
      by (auto split: if_splits)
    from "5.IH"(2) [OF q ss refl sk1 col so refl lt sk False c rec]
      skip_ws_length [of r4] le lt
    show ?thesis by simp
  qed
qed

text \<open>
  So the two loops satisfy the equations of CPython's decoder, without the test.
\<close>

lemma JSONArray_unguarded:
  "JSONArray cs acc =
     (case scan_once cs of
        None \<Rightarrow> None
      | Some (v, r) \<Rightarrow>
          (case skip_ws r of
             [] \<Rightarrow> None
           | d # r' \<Rightarrow>
               if d = CHR '']'' then Some (JArray (rev (v # acc)), r')
               else if d = CHR '','' then JSONArray (skip_ws r') (v # acc)
               else None))"
  by (auto split: option.splits dest: scan_shorter(1))

lemma JSONObject_unguarded:
  "JSONObject (q # cs) acc =
     (if q \<noteq> CHR 0x22 then None
      else
        (case scanstring cs [] of
           None \<Rightarrow> None
         | Some (k, r1) \<Rightarrow>
             (case skip_ws r1 of
                [] \<Rightarrow> None
              | colon # r2 \<Rightarrow>
                  if colon \<noteq> CHR '':'' then None
                  else
                    (case scan_once (skip_ws r2) of
                       None \<Rightarrow> None
                     | Some (v, r3) \<Rightarrow>
                         (case skip_ws r3 of
                            [] \<Rightarrow> None
                          | d # r4 \<Rightarrow>
                              if d = CHR ''}'' then Some (JObject (rev ((k, v) # acc)), r4)
                              else if d = CHR '','' then JSONObject (skip_ws r4) ((k, v) # acc)
                              else None)))))"
proof -
  have "length r3 < length (q # cs)"
    if "scanstring cs [] = Some (k, r1)" "skip_ws r1 = colon # r2"
      "scan_once (skip_ws r2) = Some (v, r3)" for k r1 colon r2 v r3
    using scanstring_shorter [OF that(1)] skip_ws_length [of r1] that(2)
      skip_ws_length [of r2] scan_shorter(1) [OF that(3)]
    by simp
  then show ?thesis
    by (simp split: option.splits list.splits prod.splits)
qed

section \<open>One iteration of the loop\<close>

lemma map_of_rev_in: "map_of (rev kv) k \<noteq> None \<longleftrightarrow> k \<in> set (map fst kv)"
  by (simp add: map_of_eq_None_iff)

lemma run_loop_pos:
  "0 < n \<Longrightarrow>
   run_loop float_str a n st =
     (case iteration float_str a st of
        (Continue, st') \<Rightarrow> run_loop float_str a (n - 1) st'
      | (Return answer, st') \<Rightarrow> (Inr answer, st')
      | (Raise e, st') \<Rightarrow> (Inl e, st'))"
  by (cases n) (auto split: prod.splits flow.splits)

lemma llm_provider_Agent [simp]: "llm_provider (Agent p ts n) = p"
  by (simp add: Agent_def)

lemma max_iterations_Agent [simp]: "max_iterations (Agent p ts n) = n"
  by (simp add: Agent_def)

lemma iteration_malformed:
  assumes "llm_provider a (messages st) = Inr response"
    and "parse_action response = Inl JSONDecodeError"
  shows "iteration float_str a st =
    (Continue,
     \<lparr>messages = messages st @
        [assistant response, user ''Please respond with a valid JSON object.''],
      events = events st @ [Generate (messages st)]\<rparr>)"
  using assms by (simp add: iteration_def append_message_def log_event_def)

lemma iteration_final_answer:
  assumes "llm_provider a (messages st) = Inr response"
    and "parse_action response = Inr (JObject kv)"
    and "map_of (rev kv) ''final_answer'' = Some answer"
  shows "iteration float_str a st =
    (Return answer,
     \<lparr>messages = messages st @ [assistant response],
      events = events st @ [Generate (messages st)]\<rparr>)"
proof -
  have "''final_answer'' \<in> set (map fst kv)"
    using assms(3) map_of_rev_in [of kv "''final_answer''"] by simp
  then show ?thesis
    using assms
    by (simp add: iteration_def dispatch_def py_contains_def py_getitem_def
        append_message_def log_event_def)
qed

lemma iteration_not_iterable:
  assumes "llm_provider a (messages st) = Inr response"
    and "parse_action response = Inr (JInt i)"
  shows "fst (iteration float_str a st) = Raise TypeError"
  using assms by (simp add: iteration_def dispatch_def py_contains_def)

lemma iteration_unknown_tool:
  assumes "llm_provider a (messages st) = Inr response"
    and "parse_action response = Inr (JObject kv)"
    and "''final_answer'' \<notin> set (map fst kv)"
    and "map_of (rev kv) ''tool'' = Some (JString tool_name)"
    and "map_of (tools a) tool_name = None"
  shows "iteration float_str a st =
    (Continue,
     \<lparr>messages = messages st @ [assistant response, user (''Unknown tool: '' @ tool_name)],
      events = events st @ [Generate (messages st)]\<rparr>)"
proof -
  have "''tool'' \<in> set (map fst kv)"
    using assms(4) map_of_rev_in [of kv "''tool''"] by simp
  then show ?thesis
    using assms
    by (simp add: iteration_def dispatch_def dispatch_tool_def py_contains_def py_getitem_def
        py_get_def str_hashable_def append_message_def log_event_def split: option.splits)
qed

lemma iteration_tool_raised:
  assumes "llm_provider a (messages st) = Inr response"
    and "parse_action response = Inr (JObject kv)"
    and "''final_answer'' \<notin> set (map fst kv)"
    and "map_of (rev kv) ''tool'' = Some (JString tool_name)"
    and "map_of (tools a) tool_name = Some t"
    and "execute t (arguments_of kv) = Raised failure"
  shows "iteration float_str a st =
    (Continue,
     \<lparr>messages = messages st @ [assistant response, user (''Tool error: '' @ failure)],
      events = events st @ [Generate (messages st), Execute tool_name (arguments_of kv)]\<rparr>)"
proof -
  have "''tool'' \<in> set (map fst kv)"
    using assms(4) map_of_rev_in [of kv "''tool''"] by simp
  then show ?thesis
    using assms
    by (simp add: iteration_def dispatch_def dispatch_tool_def py_contains_def py_getitem_def
        py_get_def str_hashable_def append_message_def log_event_def arguments_of_def
        split: option.splits)
qed

section \<open>A decoded value that is not an object\<close>

lemma parse_action_42: "parse_action ''42'' = Inr (JInt 42)"
  by code_simp

text \<open>
  C1. The claim: a reply that decodes to valid JSON but not to an object is a
  self-healing condition, and \<open>run\<close> raises nothing but the exhausted budget or a
  backend failure. The code: with a backend that answers \<open>42\<close>, the first iteration
  evaluates \<open>"final_answer" in 42\<close>, and \<open>run\<close> ends with a \<open>TypeError\<close>, whatever the
  tools, the task and the budget of ten iterations.
\<close>

theorem run_bare_number_raises_TypeError:
  "fst (run float_str (Agent (scripted [] ''42'') ts 10) task) = Inl TypeError"
proof -
  let ?a = "Agent (scripted [] ''42'') ts 10"
  let ?st = "\<lparr>messages = [system (create_system_prompt ?a), user task], events = []\<rparr>"
  have p: "llm_provider ?a (messages ?st) = Inr ''42''"
    by (simp add: scripted_def)
  from iteration_not_iterable [OF p parse_action_42, of float_str]
  obtain st' where "iteration float_str ?a ?st = (Raise TypeError, st')"
    by (cases "iteration float_str ?a ?st") auto
  then show ?thesis
    by (simp add: run_def run_loop_pos)
qed

section \<open>The action parser\<close>

lemma re_search_braces_greedy:
  assumes "CHR ''{'' \<notin> set pre" and "CHR ''}'' \<notin> set post"
  shows "re_search_braces (pre @ ''{'' @ mid @ ''}'' @ post) = Some (''{'' @ mid @ ''}'')"
proof -
  have d: "dropWhile (\<lambda>c. c \<noteq> CHR ''{'') (pre @ ''{'' @ mid @ ''}'' @ post)
           = ''{'' @ mid @ ''}'' @ post"
    using assms(1) by (auto simp: dropWhile_append)
  have r: "dropWhile (\<lambda>c. c \<noteq> CHR ''}'') (rev (''{'' @ mid @ ''}'' @ post))
           = rev (''{'' @ mid @ ''}'')"
    using assms(2) by (auto simp: dropWhile_append)
  show ?thesis
    unfolding re_search_braces_def Let_def d r by simp
qed

lemma re_search_braces_Some:
  assumes "re_search_braces response = Some sub"
  shows "\<exists>pre mid post. response = pre @ ''{'' @ mid @ ''}'' @ post \<and>
           CHR ''{'' \<notin> set pre \<and> CHR ''}'' \<notin> set post \<and> sub = ''{'' @ mid @ ''}''"
proof -
  let ?P = "\<lambda>c. c \<noteq> CHR ''{''"
  let ?from = "dropWhile ?P response"
  from assms have mem: "CHR ''}'' \<in> set ?from"
    by (auto simp: re_search_braces_def Let_def split: if_splits)
  then have ne: "?from \<noteq> []" by (metis empty_iff list.set(1))
  then obtain rest where fr: "?from = CHR ''{'' # rest"
    using hd_dropWhile [of ?P response] by (cases ?from) auto
  with mem have "CHR ''}'' \<in> set rest" by auto
  then obtain mid post where rest: "rest = mid @ CHR ''}'' # post" and np: "CHR ''}'' \<notin> set post"
    by (meson split_list_last)
  have resp: "response = takeWhile ?P response @ ''{'' @ mid @ ''}'' @ post"
    using takeWhile_dropWhile_id [of ?P response] fr rest by simp
  have npre: "CHR ''{'' \<notin> set (takeWhile ?P response)"
    by (auto dest: set_takeWhileD)
  from re_search_braces_greedy [OF npre np, of mid] resp assms
  have "sub = ''{'' @ mid @ ''}''" by simp
  with resp npre np show ?thesis by blast
qed

lemma re_search_braces_None:
  "re_search_braces response = None \<longleftrightarrow>
   \<not> (\<exists>pre mid post. response = pre @ ''{'' @ mid @ ''}'' @ post)"
proof
  assume n: "re_search_braces response = None"
  show "\<not> (\<exists>pre mid post. response = pre @ ''{'' @ mid @ ''}'' @ post)"
  proof
    assume "\<exists>pre mid post. response = pre @ ''{'' @ mid @ ''}'' @ post"
    then obtain pre mid post where r: "response = pre @ ''{'' @ mid @ ''}'' @ post" by blast
    let ?P = "\<lambda>c. c \<noteq> CHR ''{''"
    have "CHR ''}'' \<in> set (dropWhile ?P response)"
      unfolding r by (simp add: dropWhile_append)
    with n show False by (simp add: re_search_braces_def Let_def)
  qed
next
  assume "\<not> (\<exists>pre mid post. response = pre @ ''{'' @ mid @ ''}'' @ post)"
  then show "re_search_braces response = None"
    using re_search_braces_Some [of response] by (cases "re_search_braces response") auto
qed

lemma scanstring_plain:
  "plain x \<Longrightarrow> scanstring (x @ CHR 0x22 # rest) acc = Some (rev acc @ x, rest)"
proof (induction x arbitrary: acc)
  case Nil
  then show ?case by simp
next
  case (Cons c x)
  from Cons.prems have c: "c \<noteq> CHR 0x22" "c \<noteq> CHR 0x5C" "\<not> (of_char c :: nat) < 32"
    and x: "plain x"
    by (auto simp: plain_def)
  from Cons.IH [OF x, of "c # acc"] c show ?case by simp
qed

lemma json_loads_final_answer_text:
  assumes "plain x"
  shows \<open>json_loads (''{"final_answer": "'' @ x @ ''"}'') =
           Some (JObject [(''final_answer'', JString x)])\<close>
proof -
  have key: \<open>scanstring (''final_answer": "'' @ x @ ''"}'') [] =
              Some (''final_answer'', '': "'' @ x @ ''"}'')\<close>
    using scanstring_plain [of "''final_answer''" \<open>'': "'' @ x @ ''"}''\<close> "[]"]
    by (simp add: plain_def)
  have val: \<open>scanstring (x @ ''"}'') [] = Some (x, ''}'')\<close>
    using scanstring_plain [OF assms, of "''}''" "[]"] by simp
  have ws1: \<open>skip_ws ('': "'' @ x @ ''"}'') = '': "'' @ x @ ''"}''\<close>
    by (simp add: skip_ws_def is_ws_def)
  have ws2: \<open>skip_ws ('' "'' @ x @ ''"}'') = ''"'' @ x @ ''"}''\<close>
    by (simp add: skip_ws_def is_ws_def)
  have ws3: \<open>skip_ws (''"final_answer": "'' @ x @ ''"}'') = ''"final_answer": "'' @ x @ ''"}''\<close>
    by (simp add: skip_ws_def is_ws_def)
  have ws4: "skip_ws ''}'' = ''}''" "skip_ws [] = []"
    by (simp_all add: skip_ws_def is_ws_def)
  have inner: \<open>scan_once (''"'' @ x @ ''"}'') = Some (JString x, ''}'')\<close>
    using val by simp
  have obj: \<open>JSONObject (''"final_answer": "'' @ x @ ''"}'') [] =
              Some (JObject [(''final_answer'', JString x)], [])\<close>
    using key ws1 ws2 inner ws4
    by (simp add: JSONObject_unguarded del: JSONObject.simps)
  have \<open>scan_once (''{"final_answer": "'' @ x @ ''"}'') =
          Some (JObject [(''final_answer'', JString x)], [])\<close>
    using ws3 obj by simp
  then show ?thesis
    using ws4 by (simp add: json_loads_def skip_ws_def is_ws_def)
qed

lemma parse_action_final_answer_text:
  assumes "plain x"
  shows \<open>parse_action (''{"final_answer": "'' @ x @ ''"}'') =
           Inr (JObject [(''final_answer'', JString x)])\<close>
proof -
  have \<open>re_search_braces ([] @ ''{'' @ (''"final_answer": "'' @ x @ ''"'') @ ''}'' @ []) =
          Some (''{'' @ (''"final_answer": "'' @ x @ ''"'') @ ''}'')\<close>
    by (rule re_search_braces_greedy) simp_all
  then have \<open>re_search_braces (''{"final_answer": "'' @ x @ ''"}'') =
          Some (''{"final_answer": "'' @ x @ ''"}'')\<close>
    by simp
  then show ?thesis
    using json_loads_final_answer_text [OF assms]
    by (simp add: parse_action_def loads_def)
qed

lemma JSONObject_is_object:
  shows "scan_once cs = scan_once cs"
    and "JSONArray cs acc = JSONArray cs acc"
    and "JSONObject cs kacc = Some (v, r) \<Longrightarrow> \<exists>kv. v = JObject kv"
proof (induction cs and cs acc and cs kacc arbitrary: and and v r
       rule: scan_once_JSONArray_JSONObject.induct)
  case (5 q cs acc)
  from "5.prems" have q: "\<not> q \<noteq> CHR 0x22" by (auto split: if_splits)
  from "5.prems" q obtain k r1 where ss: "scanstring cs [] = Some (k, r1)"
    by (auto split: option.splits)
  from "5.prems" q ss obtain colon r2 where sk1: "skip_ws r1 = colon # r2"
    by (auto split: list.splits)
  from "5.prems" q ss sk1 have col: "\<not> colon \<noteq> CHR '':''" by (auto split: if_splits)
  from "5.prems" q ss sk1 col obtain x r3 where so: "scan_once (skip_ws r2) = Some (x, r3)"
    by (auto split: option.splits)
  from "5.prems" q ss sk1 col so have lt: "length r3 < length (q # cs)"
    by (auto split: if_splits)
  from "5.prems" q ss sk1 col so lt obtain d r4 where sk: "skip_ws r3 = d # r4"
    by (auto split: list.splits)
  show ?case
  proof (cases "d = CHR ''}''")
    case True
    with "5.prems" q ss sk1 col so lt sk show ?thesis by auto
  next
    case False
    with "5.prems" q ss sk1 col so lt sk have c: "d = CHR '',''" and
      rec: "JSONObject (skip_ws r4) ((k, x) # acc) = Some (v, r)"
      by (auto split: if_splits)
    from "5.IH"(2) [OF q ss refl sk1 col so refl lt sk False c rec]
    show ?thesis .
  qed
qed simp_all

lemma scan_once_brace_is_object:
  assumes "scan_once (CHR ''{'' # cs) = Some (v, r)"
  shows "\<exists>kv. v = JObject kv"
proof (cases "skip_ws cs")
  case Nil
  with assms show ?thesis by simp
next
  case (Cons d r')
  show ?thesis
  proof (cases "d = CHR ''}''")
    case True
    with assms Cons show ?thesis by auto
  next
    case False
    with assms Cons have "JSONObject (skip_ws cs) [] = Some (v, r)" by simp
    from JSONObject_is_object(3) [OF this] show ?thesis .
  qed
qed

lemma loads_brace_is_object:
  assumes "loads (''{'' @ mid @ ''}'') = Inr action"
  shows "\<exists>kv. action = JObject kv"
proof -
  have ws: "skip_ws (CHR ''{'' # mid @ ''}'') = CHR ''{'' # mid @ ''}''"
    by (simp add: skip_ws_def is_ws_def)
  from assms have "json_loads (CHR ''{'' # mid @ ''}'') = Some action"
    by (simp add: loads_def split: option.splits)
  then obtain r where "scan_once (CHR ''{'' # mid @ ''}'') = Some (action, r)"
    unfolding json_loads_def ws by (auto split: option.splits if_splits)
  from scan_once_brace_is_object [OF this] show ?thesis .
qed

text \<open>
  C2, as the code has it. When the text has a \<open>{\<close> with a \<open>}\<close> somewhere after it, the
  parser decodes exactly the substring from the first \<open>{\<close> to the last \<open>}\<close> and its
  answer is the outcome of that one decoding: a failure if the substring does not decode,
  without the entire text being tried afterwards, and otherwise the decoded value, which
  is always an object and is returned whatever members it has. Only when the text has no
  such substring is the entire text decoded, and the parser fails when that does not
  decode. Every text falls under one of the two cases.
\<close>

theorem parse_action_steps:
  "(\<forall>pre mid post.
      response = pre @ ''{'' @ mid @ ''}'' @ post \<and> CHR ''{'' \<notin> set pre \<and> CHR ''}'' \<notin> set post
      \<longrightarrow> parse_action response = loads (''{'' @ mid @ ''}'') \<and>
          (\<forall>action. parse_action response = Inr action \<longrightarrow> (\<exists>kv. action = JObject kv))) \<and>
   ((\<nexists>pre mid post. response = pre @ ''{'' @ mid @ ''}'' @ post) \<and> json_loads response = None
      \<longrightarrow> parse_action response = Inl JSONDecodeError) \<and>
   ((\<exists>pre mid post. response = pre @ ''{'' @ mid @ ''}'' @ post)
      \<longrightarrow> (\<exists>pre mid post. response = pre @ ''{'' @ mid @ ''}'' @ post \<and>
             CHR ''{'' \<notin> set pre \<and> CHR ''}'' \<notin> set post))"
proof (intro conjI allI impI)
  fix pre mid post
  assume h: "response = pre @ ''{'' @ mid @ ''}'' @ post \<and> CHR ''{'' \<notin> set pre \<and>
             CHR ''}'' \<notin> set post"
  then show eq: "parse_action response = loads (''{'' @ mid @ ''}'')"
    using re_search_braces_greedy [of pre post mid] by (simp add: parse_action_def)
  fix action
  assume "parse_action response = Inr action"
  with eq have "loads (''{'' @ mid @ ''}'') = Inr action" by simp
  from loads_brace_is_object [OF this] show "\<exists>kv. action = JObject kv" .
next
  assume "(\<nexists>pre mid post. response = pre @ ''{'' @ mid @ ''}'' @ post) \<and>
          json_loads response = None"
  then have "re_search_braces response = None" and "json_loads response = None"
    by (simp_all add: re_search_braces_None)
  then show "parse_action response = Inl JSONDecodeError"
    by (simp add: parse_action_def loads_def)
next
  assume e: "\<exists>pre mid post. response = pre @ ''{'' @ mid @ ''}'' @ post"
  then obtain sub where "re_search_braces response = Some sub"
    using re_search_braces_None [of response] by (cases "re_search_braces response") auto
  from re_search_braces_Some [OF this]
  show "\<exists>pre mid post. response = pre @ ''{'' @ mid @ ''}'' @ post \<and>
          CHR ''{'' \<notin> set pre \<and> CHR ''}'' \<notin> set post" by blast
qed

lemma no_braces_oops: "\<nexists>pre mid post. ''oops'' = pre @ ''{'' @ mid @ ''}'' @ post"
proof
  assume "\<exists>pre mid post. ''oops'' = pre @ ''{'' @ mid @ ''}'' @ post"
  then obtain pre mid post where "''oops'' = pre @ ''{'' @ mid @ ''}'' @ post" by blast
  then have "CHR ''{'' \<in> set ''oops''" by (metis in_set_conv_decomp append_Cons)
  then show False by simp
qed

lemma json_loads_oops: "json_loads ''oops'' = None"
  by code_simp

lemma loads_foo: \<open>loads ''{"foo": 1}'' = Inr (JObject [(''foo'', JInt 1)])\<close>
  by code_simp

theorem parse_action_steps_witness:
  \<open>parse_action ''ok {"foo": 1} done'' = Inr (JObject [(''foo'', JInt 1)]) \<and>
   parse_action ''oops'' = Inl JSONDecodeError \<and>
   (\<exists>pre mid post. ''ok {"foo": 1} done'' = pre @ ''{'' @ mid @ ''}'' @ post \<and>
      CHR ''{'' \<notin> set pre \<and> CHR ''}'' \<notin> set post)\<close>
proof (intro conjI)
  have d: \<open>''ok {"foo": 1} done'' = ''ok '' @ ''{'' @ ''"foo": 1'' @ ''}'' @ '' done'' \<and>
           CHR ''{'' \<notin> set ''ok '' \<and> CHR ''}'' \<notin> set '' done''\<close>
    by simp
  note first = parse_action_steps [of \<open>''ok {"foo": 1} done''\<close>, THEN conjunct1, rule_format,
      of "''ok ''" \<open>''"foo": 1''\<close> "'' done''", OF d, THEN conjunct1]
  have \<open>parse_action ''ok {"foo": 1} done'' = loads ''{"foo": 1}''\<close>
    using first by simp
  then show \<open>parse_action ''ok {"foo": 1} done'' = Inr (JObject [(''foo'', JInt 1)])\<close>
    by (simp only: loads_foo)
next
  have h: "(\<nexists>pre mid post. ''oops'' = pre @ ''{'' @ mid @ ''}'' @ post) \<and>
           json_loads ''oops'' = None"
    using no_braces_oops json_loads_oops by (rule conjI)
  from parse_action_steps [of "''oops''", THEN conjunct2, THEN conjunct1, rule_format, OF h]
  show "parse_action ''oops'' = Inl JSONDecodeError" .
next
  have \<open>''ok {"foo": 1} done'' = ''ok '' @ ''{'' @ ''"foo": 1'' @ ''}'' @ '' done''\<close> by simp
  then have e: \<open>\<exists>pre mid post. ''ok {"foo": 1} done'' = pre @ ''{'' @ mid @ ''}'' @ post\<close>
    by (rule exI [of _ "''ok ''", OF exI [of _ \<open>''"foo": 1''\<close>, OF exI [of _ "'' done''"]]])
  from parse_action_steps [of \<open>''ok {"foo": 1} done''\<close>, THEN conjunct2, THEN conjunct2,
      rule_format, OF e]
  show \<open>\<exists>pre mid post. ''ok {"foo": 1} done'' = pre @ ''{'' @ mid @ ''}'' @ post \<and>
      CHR ''{'' \<notin> set pre \<and> CHR ''}'' \<notin> set post\<close> .
qed

text \<open>
  C2, as the claim states it, fails on the code in either reading of ``decode as the
  action schema''. Read as plain decoding: the text \<open>["{","}"]\<close> decodes as a whole, the
  claim's second attempt, but its brace substring \<open>{","}\<close> does not, and the code fails
  without making that attempt. Read as decoding followed by a check of the schema: the
  object \<open>{"foo": 1}\<close> has neither a \<open>final_answer\<close> nor a \<open>tool\<close>, so neither attempt
  yields an action and the parser of the claim fails; the code returns the object, and
  the loop answers it with its prompt to specify a tool or a final answer.
\<close>

theorem parse_action_differs_from_spec:
  \<open>parse_action ''["{","}"]'' = Inl JSONDecodeError \<and>
   parse_action_spec any_json ''["{","}"]'' = Inr (JArray [JString ''{'', JString ''}'']) \<and>
   parse_action ''{"foo": 1}'' = Inr (JObject [(''foo'', JInt 1)]) \<and>
   parse_action_spec action_schema ''{"foo": 1}'' = Inl JSONDecodeError\<close>
  by (intro conjI; code_simp)

section \<open>Replies that do not decode, and the budget\<close>

lemma run_state_eta: "\<lparr>messages = messages st, events = events st\<rparr> = (st :: run_state)"
  by (cases st) simp

lemma retries_Cons: "retries (r # rs) = [assistant r, corrective] @ retries rs"
  by (simp add: retries_def)

lemma retries_Nil: "retries [] = []"
  by (simp add: retries_def)

lemma assistant_not_corrective: "assistant r \<noteq> corrective"
  by (simp add: assistant_def corrective_def user_def)

lemma count_corrective_retries:
  "length (filter (\<lambda>m. m = corrective) (retries rs)) = length rs"
  by (induction rs) (simp_all add: retries_Cons retries_Nil assistant_not_corrective)

lemma iteration_malformed':
  assumes "llm_provider a (messages st) = Inr response"
    and "parse_action response = Inl JSONDecodeError"
  shows "iteration float_str a st =
    (Continue,
     \<lparr>messages = messages st @ retries [response],
      events = events st @ [Generate (messages st)]\<rparr>)"
  using iteration_malformed [OF assms]
  by (simp add: retries_def corrective_def)

lemma run_loop_malformed_prefix:
  assumes "\<forall>k < length rs.
             llm_provider a (messages st @ retries (take k rs)) = Inr (rs ! k) \<and>
             parse_action (rs ! k) = Inl JSONDecodeError"
  shows "run_loop float_str a (length rs + n) st =
         run_loop float_str a n
           \<lparr>messages = messages st @ retries rs,
            events = events st @
              map (\<lambda>k. Generate (messages st @ retries (take k rs))) [0..<length rs]\<rparr>"
  using assms
proof (induction rs arbitrary: st)
  case Nil
  then show ?case by (simp add: retries_Nil run_state_eta)
next
  case (Cons r rs)
  let ?st1 = "\<lparr>messages = messages st @ retries [r],
               events = events st @ [Generate (messages st)]\<rparr>"
  from Cons.prems have first: "llm_provider a (messages st) = Inr r"
    "parse_action r = Inl JSONDecodeError"
    by (auto simp: retries_Nil dest: spec [where x = 0])
  have step: "iteration float_str a st = (Continue, ?st1)"
    using iteration_malformed' [OF first] .
  have rest: "\<forall>k < length rs.
      llm_provider a (messages ?st1 @ retries (take k rs)) = Inr (rs ! k) \<and>
      parse_action (rs ! k) = Inl JSONDecodeError"
  proof (intro allI impI)
    fix k assume "k < length rs"
    then have "Suc k < length (r # rs)" by simp
    with Cons.prems have
      "llm_provider a (messages st @ retries (take (Suc k) (r # rs))) = Inr ((r # rs) ! Suc k) \<and>
       parse_action ((r # rs) ! Suc k) = Inl JSONDecodeError" by blast
    then show "llm_provider a (messages ?st1 @ retries (take k rs)) = Inr (rs ! k) \<and>
      parse_action (rs ! k) = Inl JSONDecodeError"
      by (simp add: retries_Cons retries_Nil)
  qed
  have "run_loop float_str a (length (r # rs) + n) st = run_loop float_str a (length rs + n) ?st1"
    using step by simp
  also have "\<dots> = run_loop float_str a n
       \<lparr>messages = messages ?st1 @ retries rs,
        events = events ?st1 @
          map (\<lambda>k. Generate (messages ?st1 @ retries (take k rs))) [0..<length rs]\<rparr>"
    using Cons.IH [OF rest] .
  also have "\<dots> = run_loop float_str a n
       \<lparr>messages = messages st @ retries (r # rs),
        events = events st @
          map (\<lambda>k. Generate (messages st @ retries (take k (r # rs)))) [0..<length (r # rs)]\<rparr>"
    by (simp add: retries_Cons retries_Nil map_upt_Suc del: upt_Suc)
  finally show ?case .
qed

lemma run_loop_always_malformed:
  assumes "\<forall>conversation. \<exists>reply.
             llm_provider a conversation = Inr reply \<and> parse_action reply = Inl JSONDecodeError"
  shows "\<exists>rs. length rs = n \<and>
           (\<forall>k < n. llm_provider a (messages st @ retries (take k rs)) = Inr (rs ! k) \<and>
                     parse_action (rs ! k) = Inl JSONDecodeError)"
proof (induction n)
  case 0
  then show ?case by simp
next
  case (Suc n)
  then obtain rs where rs: "length rs = n"
    "\<forall>k < n. llm_provider a (messages st @ retries (take k rs)) = Inr (rs ! k) \<and>
                     parse_action (rs ! k) = Inl JSONDecodeError" by blast
  from assms obtain r where r: "llm_provider a (messages st @ retries rs) = Inr r"
    "parse_action r = Inl JSONDecodeError" by blast
  have "\<forall>k < Suc n. llm_provider a (messages st @ retries (take k (rs @ [r]))) = Inr ((rs @ [r]) ! k) \<and>
                     parse_action ((rs @ [r]) ! k) = Inl JSONDecodeError"
  proof (intro allI impI)
    fix k assume "k < Suc n"
    then consider "k < n" | "k = n" by linarith
    then show "llm_provider a (messages st @ retries (take k (rs @ [r]))) = Inr ((rs @ [r]) ! k) \<and>
                     parse_action ((rs @ [r]) ! k) = Inl JSONDecodeError"
    proof cases
      case 1
      with rs show ?thesis by (simp add: nth_append)
    next
      case 2
      with rs r show ?thesis by (simp add: nth_append)
    qed
  qed
  with rs(1) show ?case by (intro exI [of _ "rs @ [r]"]) simp
qed

lemma str_int_3: "str_int 3 = ''3''"
  by code_simp

lemma parse_action_oops: "parse_action ''oops'' = Inl JSONDecodeError"
  by code_simp

lemma parse_action_hm: "parse_action ''hm'' = Inl JSONDecodeError"
  by code_simp

lemma parse_action_final_X:
  \<open>parse_action ''{"final_answer": "X"}'' = Inr (JObject [(''final_answer'', JString ''X'')])\<close>
  by code_simp

text \<open>
  C3. A backend whose every reply fails to decode: \<open>run\<close> raises the
  \<open>RuntimeError\<close> of the exhausted budget, for every task and every tool set. The backend
  is called once per iteration of \<open>range(max_iterations)\<close>, that is \<open>max_iterations\<close>
  times (\<open>nat\<close> is how \<open>range\<close> counts: the budget as a number of iterations). The
  events are exactly those calls; \<open>rs\<close> are the replies, and the conversation handed to
  call \<open>k\<close> holds the task followed by the \<open>k\<close> earlier replies, each with its
  corrective user message: every call has appended one corrective message before the
  next call is made.
\<close>

theorem run_always_malformed_exhausts_budget:
  assumes "\<forall>conversation. \<exists>reply.
             llm_provider a conversation = Inr reply \<and> parse_action reply = Inl JSONDecodeError"
  shows "\<exists>rs. length rs = nat (max_iterations a) \<and>
           (\<forall>k < length rs.
              llm_provider a ([system (create_system_prompt a), user task] @
                              retries (take k rs)) = Inr (rs ! k)) \<and>
           run float_str a task =
             (Inl (RuntimeError (''Max iterations ('' @ str_int (max_iterations a) @ '') exceeded'')),
              \<lparr>messages = [system (create_system_prompt a), user task] @ retries rs,
               events = map (\<lambda>k. Generate ([system (create_system_prompt a), user task] @
                                              retries (take k rs)))
                          [0..<nat (max_iterations a)]\<rparr>)"
proof -
  let ?st = "\<lparr>messages = [system (create_system_prompt a), user task], events = []\<rparr>"
  from run_loop_always_malformed [OF assms, of "nat (max_iterations a)" ?st]
  obtain rs where len: "length rs = nat (max_iterations a)"
    and rs: "\<forall>k < length rs.
               llm_provider a (messages ?st @ retries (take k rs)) = Inr (rs ! k) \<and>
               parse_action (rs ! k) = Inl JSONDecodeError"
    by auto
  from run_loop_malformed_prefix [OF rs, of float_str 0] len
  have "run float_str a task =
          (Inl (RuntimeError (''Max iterations ('' @ str_int (max_iterations a) @ '') exceeded'')),
           \<lparr>messages = [system (create_system_prompt a), user task] @ retries rs,
            events = map (\<lambda>k. Generate ([system (create_system_prompt a), user task] @
                                           retries (take k rs)))
                       [0..<nat (max_iterations a)]\<rparr>)"
    by (simp add: run_def)
  moreover from rs have "\<forall>k < length rs.
      llm_provider a ([system (create_system_prompt a), user task] @ retries (take k rs)) =
        Inr (rs ! k)"
    by simp
  ultimately show ?thesis using len by blast
qed

theorem run_always_malformed_exhausts_budget_witness:
  "fst (run id (Agent (scripted [] ''oops'') [] 3) ''add 2 and 2'') =
     Inl (RuntimeError ''Max iterations (3) exceeded'') \<and>
   length (events (snd (run id (Agent (scripted [] ''oops'') [] 3) ''add 2 and 2''))) = 3"
proof -
  let ?a = "Agent (scripted [] ''oops'') [] 3"
  have "\<forall>conversation. \<exists>reply.
          llm_provider ?a conversation = Inr reply \<and> parse_action reply = Inl JSONDecodeError"
    by (simp add: scripted_def parse_action_oops)
  from run_always_malformed_exhausts_budget
    [OF this, where float_str = id and task = "''add 2 and 2''"]
  show ?thesis by (auto simp: str_int_3)
qed

text \<open>
  C5. If there is a first call (the budget is positive) and the backend answers it with
  \<open>{"final_answer": "X"}\<close>, \<open>X\<close> being any text that can stand between the quotes as it
  is, then \<open>run\<close> returns the string \<open>X\<close>; the only event of the run is that one call,
  and the reply is the last message of the conversation. More generally, whatever the
  first reply, if it parses to an object with a \<open>final_answer\<close>, \<open>run\<close> returns the value
  of that member after that one call.
\<close>

theorem run_final_answer_on_first_call:
  assumes "0 < max_iterations a"
    and "llm_provider a [system (create_system_prompt a), user task] = Inr reply"
  shows \<open>(\<forall>x. plain x \<and> reply = ''{"final_answer": "'' @ x @ ''"}'' \<longrightarrow>
            run float_str a task =
              (Inr (JString x),
               \<lparr>messages = [system (create_system_prompt a), user task, assistant reply],
                events = [Generate [system (create_system_prompt a), user task]]\<rparr>)) \<and>
         (\<forall>kv answer.
            parse_action reply = Inr (JObject kv) \<and>
            map_of (rev kv) ''final_answer'' = Some answer \<longrightarrow>
            run float_str a task =
              (Inr answer,
               \<lparr>messages = [system (create_system_prompt a), user task, assistant reply],
                events = [Generate [system (create_system_prompt a), user task]]\<rparr>))\<close>
proof -
  let ?st = "\<lparr>messages = [system (create_system_prompt a), user task], events = []\<rparr>"
  have p: "llm_provider a (messages ?st) = Inr reply"
    using assms(2) by simp
  have general: "run float_str a task =
      (Inr answer,
       \<lparr>messages = [system (create_system_prompt a), user task, assistant reply],
        events = [Generate [system (create_system_prompt a), user task]]\<rparr>)"
    if "parse_action reply = Inr (JObject kv)" "map_of (rev kv) ''final_answer'' = Some answer"
    for kv answer
    using iteration_final_answer [OF p that, of float_str] assms(1)
    by (simp add: run_def run_loop_pos)
  have literal: "run float_str a task =
      (Inr (JString x),
       \<lparr>messages = [system (create_system_prompt a), user task, assistant reply],
        events = [Generate [system (create_system_prompt a), user task]]\<rparr>)"
    if "plain x" \<open>reply = ''{"final_answer": "'' @ x @ ''"}''\<close> for x
  proof -
    have "parse_action reply = Inr (JObject [(''final_answer'', JString x)])"
      using parse_action_final_answer_text [OF that(1)] that(2) by simp
    moreover have "map_of (rev [(''final_answer'', JString x)]) ''final_answer'' =
                     Some (JString x)"
      by simp
    ultimately show ?thesis by (rule general)
  qed
  show ?thesis
    using general literal by blast
qed

theorem run_final_answer_on_first_call_witness:
  \<open>run id (Agent (scripted [] ''{"final_answer": "X"}'') [] 10) ''what is X?'' =
     (Inr (JString ''X''),
      \<lparr>messages =
         [system (create_system_prompt (Agent (scripted [] ''{"final_answer": "X"}'') [] 10)),
          user ''what is X?'', assistant ''{"final_answer": "X"}''],
       events =
         [Generate
           [system (create_system_prompt (Agent (scripted [] ''{"final_answer": "X"}'') [] 10)),
            user ''what is X?'']]\<rparr>) \<and>
   fst (run id (Agent (scripted [] ''{"final_answer": "42 apples"}'') [] 1) ''how many?'') =
     Inr (JString ''42 apples'')\<close>
proof
  let ?a = \<open>Agent (scripted [] ''{"final_answer": "X"}'') [] 10\<close>
  have b: "0 < max_iterations ?a" by simp
  have p: \<open>llm_provider ?a [system (create_system_prompt ?a), user ''what is X?''] =
            Inr ''{"final_answer": "X"}''\<close>
    by (simp add: scripted_def)
  have h: \<open>plain ''X'' \<and> ''{"final_answer": "X"}'' = ''{"final_answer": "'' @ ''X'' @ ''"}''\<close>
    by (simp add: plain_def)
  from run_final_answer_on_first_call [OF b p, of id, THEN conjunct1, rule_format, OF h]
  show \<open>run id ?a ''what is X?'' =
     (Inr (JString ''X''),
      \<lparr>messages = [system (create_system_prompt ?a), user ''what is X?'',
                   assistant ''{"final_answer": "X"}''],
       events = [Generate [system (create_system_prompt ?a), user ''what is X?'']]\<rparr>)\<close> .
next
  let ?r = \<open>''{"final_answer": "42 apples"}''\<close>
  let ?a = "Agent (scripted [] ?r) [] 1"
  have b: "0 < max_iterations ?a" by simp
  have p: "llm_provider ?a [system (create_system_prompt ?a), user ''how many?''] = Inr ?r"
    by (simp add: scripted_def)
  have pa: "parse_action ?r = Inr (JObject [(''final_answer'', JString ''42 apples'')])"
    by code_simp
  have h: "parse_action ?r = Inr (JObject [(''final_answer'', JString ''42 apples'')]) \<and>
           map_of (rev [(''final_answer'', JString ''42 apples'')]) ''final_answer'' =
             Some (JString ''42 apples'')"
    using pa by simp
  from run_final_answer_on_first_call [OF b p, of id, THEN conjunct2, rule_format, OF h]
  show "fst (run id ?a ''how many?'') = Inr (JString ''42 apples'')" by simp
qed

text \<open>
  C6. \<open>N\<close> replies that do not decode (\<open>N\<close> the length of \<open>rs\<close>, below the budget),
  then a reply that decodes to an object with a \<open>final_answer\<close>: \<open>run\<close> returns that
  answer after \<open>N + 1\<close> calls, and what the loop appended to the conversation holds
  exactly \<open>N\<close> corrective user messages, one after each of the \<open>N\<close> replies.
\<close>

theorem run_recovers_after_malformed_replies:
  assumes "int (length rs) < max_iterations a"
    and "\<forall>k < length rs.
           llm_provider a ([system (create_system_prompt a), user task] @ retries (take k rs)) =
             Inr (rs ! k) \<and>
           parse_action (rs ! k) = Inl JSONDecodeError"
    and "llm_provider a ([system (create_system_prompt a), user task] @ retries rs) = Inr final"
    and "parse_action final = Inr (JObject kv)"
    and "map_of (rev kv) ''final_answer'' = Some answer"
  shows "run float_str a task =
           (Inr answer,
            \<lparr>messages = [system (create_system_prompt a), user task] @ retries rs @
                         [assistant final],
             events = map (\<lambda>k. Generate ([system (create_system_prompt a), user task] @
                                            retries (take k rs)))
                        [0..<Suc (length rs)]\<rparr>) \<and>
         length (filter (\<lambda>m. m = corrective) (retries rs @ [assistant final])) = length rs"
proof
  let ?init = "[system (create_system_prompt a), user task]"
  let ?st = "\<lparr>messages = ?init, events = []\<rparr>"
  let ?st' = "\<lparr>messages = messages ?st @ retries rs,
              events = events ?st @
                map (\<lambda>k. Generate (messages ?st @ retries (take k rs))) [0..<length rs]\<rparr>"
  from assms(1) obtain m where budget: "nat (max_iterations a) = length rs + Suc m"
    by (metis add_Suc_right less_imp_Suc_add nat_int zless_nat_conj zless_nat_eq_int_zless)
  have pre: "\<forall>k < length rs.
      llm_provider a (messages ?st @ retries (take k rs)) = Inr (rs ! k) \<and>
      parse_action (rs ! k) = Inl JSONDecodeError"
    using assms(2) by simp
  have p: "llm_provider a (messages ?st') = Inr final"
    using assms(3) by simp
  have "run float_str a task = run_loop float_str a (Suc m) ?st'"
    using run_loop_malformed_prefix [OF pre, of float_str "Suc m"] budget
    by (simp add: run_def)
  also have "\<dots> = (Inr answer,
      \<lparr>messages = messages ?st' @ [assistant final],
       events = events ?st' @ [Generate (messages ?st')]\<rparr>)"
    using iteration_final_answer [OF p assms(4) assms(5), of float_str] by simp
  finally show "run float_str a task =
           (Inr answer,
            \<lparr>messages = ?init @ retries rs @ [assistant final],
             events = map (\<lambda>k. Generate (?init @ retries (take k rs)))
                        [0..<Suc (length rs)]\<rparr>)"
    by simp
next
  show "length (filter (\<lambda>m. m = corrective) (retries rs @ [assistant final])) = length rs"
    by (simp add: count_corrective_retries assistant_not_corrective)
qed

theorem run_recovers_after_malformed_replies_witness:
  \<open>fst (run id (Agent (scripted [''hm'', ''oops''] ''{"final_answer": "X"}'') [] 3) ''what is X?'') =
     Inr (JString ''X'') \<and>
   length (filter (\<lambda>m. m = corrective)
     (messages (snd (run id (Agent (scripted [''hm'', ''oops''] ''{"final_answer": "X"}'') [] 3)
        ''what is X?'')))) = 2\<close>
proof -
  let ?a = \<open>Agent (scripted [''hm'', ''oops''] ''{"final_answer": "X"}'') [] 3\<close>
  let ?rs = "[''hm'', ''oops'']"
  let ?init = "[system (create_system_prompt ?a), user ''what is X?'']"
  have b: "int (length ?rs) < max_iterations ?a" by simp
  have bad: "\<forall>k < length ?rs.
      llm_provider ?a (?init @ retries (take k ?rs)) = Inr (?rs ! k) \<and>
      parse_action (?rs ! k) = Inl JSONDecodeError"
    by (simp add: scripted_def retries_def less_Suc_eq parse_action_hm parse_action_oops
        numeral_2_eq_2)
  have fin: \<open>llm_provider ?a (?init @ retries ?rs) = Inr ''{"final_answer": "X"}''\<close>
    by (simp add: scripted_def retries_def)
  have m: "map_of (rev [(''final_answer'', JString ''X'')]) ''final_answer'' = Some (JString ''X'')"
    by simp
  from run_recovers_after_malformed_replies [OF b bad fin parse_action_final_X m, of id]
  show ?thesis
    by (simp add: retries_def corrective_def user_def system_def assistant_def)
qed

section \<open>Final answers, unknown tools and failing tools\<close>

lemma tools_Agent_single [simp]: "tools (Agent p [t] n) = [(name t, t)]"
  by (simp add: Agent_def)

text \<open>
  C4. A reply that decodes to an object holding both a \<open>final_answer\<close> and a \<open>tool\<close>
  member: the iteration returns the value of \<open>final_answer\<close> and ends the run with it.
  The only event of the iteration is the backend call; no tool is executed and nothing
  but the reply is appended to the conversation.
\<close>

theorem final_answer_takes_precedence:
  assumes "llm_provider a (messages st) = Inr response"
    and "parse_action response = Inr (JObject kv)"
    and "''final_answer'' \<in> set (map fst kv)"
    and "''tool'' \<in> set (map fst kv)"
  shows "\<exists>answer.
           map_of (rev kv) ''final_answer'' = Some answer \<and>
           iteration float_str a st =
             (Return answer,
              \<lparr>messages = messages st @ [assistant response],
               events = events st @ [Generate (messages st)]\<rparr>) \<and>
           run_loop float_str a (Suc n) st =
             (Inr answer,
              \<lparr>messages = messages st @ [assistant response],
               events = events st @ [Generate (messages st)]\<rparr>)"
proof -
  from assms(3) obtain answer where m: "map_of (rev kv) ''final_answer'' = Some answer"
    using map_of_rev_in [of kv "''final_answer''"] by auto
  from iteration_final_answer [OF assms(1) assms(2) m, of float_str] m
  show ?thesis by simp
qed

lemma parse_action_both:
  \<open>parse_action ''{"tool": "calculator", "arguments": {"expression": "2 + 2 * 3"}, "final_answer": "8"}'' =
     Inr (JObject [(''tool'', JString ''calculator''),
                   (''arguments'', JObject [(''expression'', JString ''2 + 2 * 3'')]),
                   (''final_answer'', JString ''8'')])\<close>
  by code_simp

theorem final_answer_takes_precedence_witness:
  \<open>run id
     (Agent
       (scripted []
         ''{"tool": "calculator", "arguments": {"expression": "2 + 2 * 3"}, "final_answer": "8"}'')
       [table_calculator] 10)
     ''what is 2 + 2 * 3?'' =
   (Inr (JString ''8''),
    \<lparr>messages =
       [system (create_system_prompt (Agent
          (scripted []
            ''{"tool": "calculator", "arguments": {"expression": "2 + 2 * 3"}, "final_answer": "8"}'')
          [table_calculator] 10)),
        user ''what is 2 + 2 * 3?'',
        assistant
          ''{"tool": "calculator", "arguments": {"expression": "2 + 2 * 3"}, "final_answer": "8"}''],
     events =
       [Generate
         [system (create_system_prompt (Agent
            (scripted []
              ''{"tool": "calculator", "arguments": {"expression": "2 + 2 * 3"}, "final_answer": "8"}'')
            [table_calculator] 10)),
          user ''what is 2 + 2 * 3?'']]\<rparr>)\<close>
proof -
  let ?r = \<open>''{"tool": "calculator", "arguments": {"expression": "2 + 2 * 3"}, "final_answer": "8"}''\<close>
  let ?a = "Agent (scripted [] ?r) [table_calculator] 10"
  let ?st = "\<lparr>messages = [system (create_system_prompt ?a), user ''what is 2 + 2 * 3?''],
              events = []\<rparr>"
  let ?kv = "[(''tool'', JString ''calculator''),
              (''arguments'', JObject [(''expression'', JString ''2 + 2 * 3'')]),
              (''final_answer'', JString ''8'')]"
  have p: "llm_provider ?a (messages ?st) = Inr ?r"
    by (simp add: scripted_def)
  have f: "''final_answer'' \<in> set (map fst ?kv)" and t: "''tool'' \<in> set (map fst ?kv)"
    by simp_all
  from final_answer_takes_precedence [OF p parse_action_both f t, of id 9]
  show ?thesis
    by (simp add: run_def numeral_eq_Suc)
qed

text \<open>
  C7. A reply that decodes to a tool invocation (no \<open>final_answer\<close>) whose \<open>tool\<close> is a
  name missing from the registry: the iteration appends the user message
  \<open>Unknown tool: <name>\<close>, executes nothing and raises nothing; the loop goes on with the
  remaining budget, and if the next reply carries a final answer the run returns it.
\<close>

theorem unknown_tool_is_reported:
  assumes "llm_provider a (messages st) = Inr response"
    and "parse_action response = Inr (JObject kv)"
    and "''final_answer'' \<notin> set (map fst kv)"
    and "map_of (rev kv) ''tool'' = Some (JString tool_name)"
    and "map_of (tools a) tool_name = None"
  shows
    "let st' = \<lparr>messages = messages st @
                  [assistant response, user (''Unknown tool: '' @ tool_name)],
                events = events st @ [Generate (messages st)]\<rparr>
     in iteration float_str a st = (Continue, st') \<and>
        (\<forall>n. run_loop float_str a (Suc n) st = run_loop float_str a n st') \<and>
        (\<forall>final kv' answer n.
           llm_provider a (messages st') = Inr final \<and>
           parse_action final = Inr (JObject kv') \<and>
           map_of (rev kv') ''final_answer'' = Some answer \<longrightarrow>
           run_loop float_str a (Suc (Suc n)) st =
             (Inr answer,
              \<lparr>messages = messages st' @ [assistant final],
               events = events st' @ [Generate (messages st')]\<rparr>))"
proof -
  let ?st' = "\<lparr>messages = messages st @
                  [assistant response, user (''Unknown tool: '' @ tool_name)],
                events = events st @ [Generate (messages st)]\<rparr>"
  have step: "iteration float_str a st = (Continue, ?st')"
    using iteration_unknown_tool [OF assms] .
  have loop: "run_loop float_str a (Suc n) st = run_loop float_str a n ?st'" for n
    using step by simp
  have later: "run_loop float_str a (Suc (Suc n)) st =
             (Inr answer,
              \<lparr>messages = messages ?st' @ [assistant final],
               events = events ?st' @ [Generate (messages ?st')]\<rparr>)"
    if "llm_provider a (messages ?st') = Inr final"
      and "parse_action final = Inr (JObject kv')"
      and "map_of (rev kv') ''final_answer'' = Some answer"
    for final kv' answer n
    using iteration_final_answer [OF that, of float_str] loop [of "Suc n"] by simp
  show ?thesis
    unfolding Let_def using step loop later by blast
qed

lemma parse_action_search:
  \<open>parse_action ''{"tool": "search", "arguments": {"query": "2 + 2"}}'' =
     Inr (JObject [(''tool'', JString ''search''),
                   (''arguments'', JObject [(''query'', JString ''2 + 2'')])])\<close>
  by code_simp

lemma parse_action_final_4:
  \<open>parse_action ''{"final_answer": "4"}'' = Inr (JObject [(''final_answer'', JString ''4'')])\<close>
  by code_simp

lemma name_table_calculator: "name table_calculator = ''calculator''"
  by (simp add: table_calculator_def calculator_tool_def)

theorem unknown_tool_is_reported_witness:
  \<open>fst (run id
     (Agent (scripted [''{"tool": "search", "arguments": {"query": "2 + 2"}}'']
               ''{"final_answer": "4"}'')
       [table_calculator] 2)
     ''what is 2 + 2?'') = Inr (JString ''4'') \<and>
   map content (drop 2 (messages (snd (run id
     (Agent (scripted [''{"tool": "search", "arguments": {"query": "2 + 2"}}'']
               ''{"final_answer": "4"}'')
       [table_calculator] 2)
     ''what is 2 + 2?'')))) =
   [''{"tool": "search", "arguments": {"query": "2 + 2"}}'', ''Unknown tool: search'',
    ''{"final_answer": "4"}'']\<close>
proof -
  let ?r = \<open>''{"tool": "search", "arguments": {"query": "2 + 2"}}''\<close>
  let ?f = \<open>''{"final_answer": "4"}''\<close>
  let ?a = "Agent (scripted [?r] ?f) [table_calculator] 2"
  let ?st = "\<lparr>messages = [system (create_system_prompt ?a), user ''what is 2 + 2?''],
              events = []\<rparr>"
  let ?kv = "[(''tool'', JString ''search''),
              (''arguments'', JObject [(''query'', JString ''2 + 2'')])]"
  have p: "llm_provider ?a (messages ?st) = Inr ?r"
    by (simp add: scripted_def)
  have nf: "''final_answer'' \<notin> set (map fst ?kv)" by simp
  have t: "map_of (rev ?kv) ''tool'' = Some (JString ''search'')" by simp
  have u: "map_of (tools ?a) ''search'' = None" by (simp add: name_table_calculator)
  let ?st' = "\<lparr>messages = messages ?st @ [assistant ?r, user (''Unknown tool: '' @ ''search'')],
               events = events ?st @ [Generate (messages ?st)]\<rparr>"
  have p2: "llm_provider ?a (messages ?st') = Inr ?f"
    by (simp add: scripted_def)
  have m: "map_of (rev [(''final_answer'', JString ''4'')]) ''final_answer'' = Some (JString ''4'')"
    by simp
  from unknown_tool_is_reported [OF p parse_action_search nf t u, of id]
  have "run_loop id ?a (Suc (Suc 0)) ?st =
          (Inr (JString ''4''),
           \<lparr>messages = messages ?st' @ [assistant ?f],
            events = events ?st' @ [Generate (messages ?st')]\<rparr>)"
    unfolding Let_def using p2 parse_action_final_4 m by blast
  then show ?thesis
    by (simp add: run_def numeral_2_eq_2 assistant_def user_def)
qed

text \<open>
  C8. A reply that invokes a registered tool whose \<open>execute\<close> raises: the iteration appends
  the user message \<open>Tool error: <str(e)>\<close> and the loop goes on with the remaining budget;
  the failure does not leave \<open>run\<close>. The calculator is such a tool: when \<open>eval\<close> fails on
  the expression, as it does on \<open>2 +\<close>, its \<open>execute\<close> raises the \<open>ValueError\<close>
  \<open>Invalid expression: <str(e)>\<close>.
\<close>

theorem tool_failure_is_reported:
  assumes "llm_provider a (messages st) = Inr response"
    and "parse_action response = Inr (JObject kv)"
    and "''final_answer'' \<notin> set (map fst kv)"
    and "map_of (rev kv) ''tool'' = Some (JString tool_name)"
    and "map_of (tools a) tool_name = Some t"
    and "execute t (arguments_of kv) = Raised failure"
  shows
    "let st' = \<lparr>messages = messages st @
                  [assistant response, user (''Tool error: '' @ failure)],
                events = events st @
                  [Generate (messages st), Execute tool_name (arguments_of kv)]\<rparr>
     in iteration float_str a st = (Continue, st') \<and>
        (\<forall>n. run_loop float_str a (Suc n) st = run_loop float_str a n st') \<and>
        (\<forall>py_eval py_str call_error expression e.
           py_eval expression = RaisesException e \<longrightarrow>
           execute (calculator_tool py_eval (py_str :: 'v \<Rightarrow> string) call_error)
             (JObject [(''expression'', expression)]) =
           Raised (''Invalid expression: '' @ e))"
proof -
  have step: "iteration float_str a st =
      (Continue,
       \<lparr>messages = messages st @ [assistant response, user (''Tool error: '' @ failure)],
        events = events st @ [Generate (messages st), Execute tool_name (arguments_of kv)]\<rparr>)"
    using iteration_tool_raised [OF assms, of float_str] .
  have calc: "execute (calculator_tool py_eval (py_str :: 'v \<Rightarrow> string) call_error)
             (JObject [(''expression'', expression)]) = Raised (''Invalid expression: '' @ e)"
    if "py_eval expression = RaisesException e" for py_eval py_str call_error expression e
    using that
    by (simp add: calculator_tool_def bind_expression_def CalculatorTool_execute_def)
  show ?thesis
    unfolding Let_def using step calc by simp
qed

lemma parse_action_2_plus:
  \<open>parse_action ''{"tool": "calculator", "arguments": {"expression": "2 +"}}'' =
     Inr (JObject [(''tool'', JString ''calculator''),
                   (''arguments'', JObject [(''expression'', JString ''2 +'')])])\<close>
  by code_simp

theorem tool_failure_is_reported_witness:
  \<open>iteration id
     (Agent (scripted [''{"tool": "calculator", "arguments": {"expression": "2 +"}}'']
               ''{"final_answer": "4"}'')
       [table_calculator] 2)
     \<lparr>messages = [user ''what is 2 +''], events = []\<rparr> =
   (Continue,
    \<lparr>messages =
       [user ''what is 2 +'',
        assistant ''{"tool": "calculator", "arguments": {"expression": "2 +"}}'',
        user ''Tool error: Invalid expression: invalid syntax (<string>, line 1)''],
     events =
       [Generate [user ''what is 2 +''],
        Execute ''calculator'' (JObject [(''expression'', JString ''2 +'')])]\<rparr>) \<and>
   execute (calculator_tool (eval_table known_outcomes) str_int call_mismatch)
     (JObject [(''expression'', JString ''2 +'')]) =
   Raised ''Invalid expression: invalid syntax (<string>, line 1)''\<close>
proof
  let ?r = \<open>''{"tool": "calculator", "arguments": {"expression": "2 +"}}''\<close>
  let ?a = \<open>Agent (scripted [?r] ''{"final_answer": "4"}'') [table_calculator] 2\<close>
  let ?st = "\<lparr>messages = [user ''what is 2 +''], events = []\<rparr>"
  let ?kv = "[(''tool'', JString ''calculator''),
              (''arguments'', JObject [(''expression'', JString ''2 +'')])]"
  let ?ev = "eval_table known_outcomes"
  have p: "llm_provider ?a (messages ?st) = Inr ?r"
    by (simp add: scripted_def)
  have nf: "''final_answer'' \<notin> set (map fst ?kv)" by simp
  have t: "map_of (rev ?kv) ''tool'' = Some (JString ''calculator'')" by simp
  have u: "map_of (tools ?a) ''calculator'' = Some table_calculator"
    by (simp add: name_table_calculator)
  have args: "arguments_of ?kv = JObject [(''expression'', JString ''2 +'')]"
    by (simp add: arguments_of_def)
  have x: "execute table_calculator (arguments_of ?kv) =
             Raised ''Invalid expression: invalid syntax (<string>, line 1)''"
    by (simp add: args table_calculator_def calculator_tool_def bind_expression_def
        CalculatorTool_execute_def eval_table_def known_outcomes_def)
  note reported =
    tool_failure_is_reported [where ?'v = int, OF p parse_action_2_plus nf t u x, of id,
      unfolded Let_def args]
  from reported [THEN conjunct1]
  show "iteration id ?a ?st =
   (Continue,
    \<lparr>messages =
       [user ''what is 2 +'', assistant ?r,
        user ''Tool error: Invalid expression: invalid syntax (<string>, line 1)''],
     events =
       [Generate [user ''what is 2 +''],
        Execute ''calculator'' (JObject [(''expression'', JString ''2 +'')])]\<rparr>)"
    by simp
  have e: "?ev (JString ''2 +'') = RaisesException ''invalid syntax (<string>, line 1)''"
    by (simp add: eval_table_def known_outcomes_def)
  from reported [THEN conjunct2, THEN conjunct2, rule_format,
      of ?ev "JString ''2 +''" "''invalid syntax (<string>, line 1)''" str_int call_mismatch, OF e]
  show "execute (calculator_tool ?ev str_int call_mismatch)
          (JObject [(''expression'', JString ''2 +'')]) =
        Raised ''Invalid expression: invalid syntax (<string>, line 1)''"
    by simp
qed

section \<open>The system prompt\<close>

lemma dict_set_fresh: "k \<notin> set (map fst d) \<Longrightarrow> dict_set d k v = d @ [(k, v)]"
  by (induction d) auto

lemma foldl_dict_set_distinct:
  "distinct (map fst d @ map name ts) \<Longrightarrow>
   foldl (\<lambda>d t. dict_set d (name t) t) d ts = d @ map (\<lambda>t. (name t, t)) ts"
proof (induction ts arbitrary: d)
  case Nil
  then show ?case by simp
next
  case (Cons t ts)
  from Cons.prems have fresh: "name t \<notin> set (map fst d)" by auto
  from Cons.prems have "distinct (map fst (d @ [(name t, t)]) @ map name ts)" by auto
  from Cons.IH [OF this] fresh show ?case by (simp add: dict_set_fresh)
qed

lemma tools_Agent_distinct:
  "distinct (map name ts) \<Longrightarrow> tools (Agent p ts n) = map (\<lambda>t. (name t, t)) ts"
  using foldl_dict_set_distinct [of "[]" ts] by (simp add: Agent_def)

text \<open>
  C9. For tools with pairwise distinct names the registry keeps the tools in the order
  given, and the system prompt is the fixed template with one entry
  \<open>- <name>: <description>\<close> per tool, the entries separated by newlines, followed by the
  instructions for the two reply formats.
\<close>

theorem system_prompt_enumerates_tools:
  assumes "distinct (map name ts)"
  shows \<open>create_system_prompt (Agent p ts n) =
     ''You are a helpful AI assistant that can use tools to accomplish tasks.'' @ nl @
     nl @
     ''Available tools:'' @ nl @
     join nl (map (\<lambda>t. ''- '' @ name t @ '': '' @ description t) ts) @ nl @
     nl @
     ''To use a tool, respond with a JSON object in this format:'' @ nl @
     ''{"tool": "tool_name", "arguments": {"arg1": "value1", "arg2": "value2"}}'' @ nl @
     nl @
     ''When you have completed the task, respond with:'' @ nl @
     ''{"final_answer": "your answer here"}'' @ nl @
     nl @
     ''Always think step by step and use tools to verify your work when possible.'' @ nl\<close>
  using tools_Agent_distinct [OF assms, of p n]
  by (simp add: create_system_prompt_def format_tools_description_def comp_def)

theorem system_prompt_enumerates_tools_witness:
  \<open>create_system_prompt
     (Agent (scripted [] ''{"final_answer": "4"}'')
        [table_calculator, table_calculator\<lparr>name := ''abacus'', description := ''Counts beads.''\<rparr>] 10) =
     ''You are a helpful AI assistant that can use tools to accomplish tasks.'' @ nl @
     nl @
     ''Available tools:'' @ nl @
     (''- calculator: '' @ description table_calculator @ nl @
      ''- abacus: Counts beads.'') @ nl @
     nl @
     ''To use a tool, respond with a JSON object in this format:'' @ nl @
     ''{"tool": "tool_name", "arguments": {"arg1": "value1", "arg2": "value2"}}'' @ nl @
     nl @
     ''When you have completed the task, respond with:'' @ nl @
     ''{"final_answer": "your answer here"}'' @ nl @
     nl @
     ''Always think step by step and use tools to verify your work when possible.'' @ nl\<close>
proof -
  let ?ts = "[table_calculator,
              table_calculator\<lparr>name := ''abacus'', description := ''Counts beads.''\<rparr>]"
  have d: "distinct (map name ?ts)" by (simp add: name_table_calculator)
  from system_prompt_enumerates_tools [OF d, of \<open>scripted [] ''{"final_answer": "4"}''\<close> 10]
  show ?thesis by (simp add: name_table_calculator)
qed

section \<open>Verifying a calculation\<close>




end
